theory Spec2Isabelle
  imports Complex_Main "HOL-Library.Multiset" "HOL-Library.Sublist"
begin

text \<open>
  A model of the bulk-messaging programs of the repository and the proofs of what
  their specification says about them. The TypeScript program (\<open>index.ts\<close>,
  \<open>config.ts\<close>, \<open>src/progressTracker.ts\<close>, \<open>src/validators.ts\<close>, \<open>src/csvParser.ts\<close>,
  \<open>src/messageHandler.ts\<close>) comes first, then the template rotation of the Go
  program, which has no TypeScript counterpart. The definitions come first, the
  properties after them.
\<close>

section \<open>Data model (src/types.ts)\<close>

text \<open>
  The TypeScript interfaces become records. A JavaScript \<open>number\<close> that holds a count,
  an index or a duration in milliseconds is an \<open>int\<close> (the counters never reach
  \<open>2^53\<close>, where a double would stop counting); a \<open>Date\<close> is the number of
  milliseconds on the clock of the model; an optional field is an \<open>option\<close>.
\<close>

record Customer =
  Code :: string
  CustomerName :: string
  Phone :: string
  Mobile :: string

record ProcessedCustomer = Customer +
  selectedPhone :: string
  formattedPhone :: string
  isValid :: bool
  validationError :: "string option"

record MessageResult =
  customer :: ProcessedCustomer
  success :: bool
  timestamp :: int
  error :: "string option"
  retryCount :: nat

record ProgressState =
  totalCustomers :: int
  processedCustomers :: int
  successfulSends :: int
  failedSends :: int
  skippedCustomers :: int
  startTime :: int
  lastProcessedIndex :: int
  currentBatch :: int

section \<open>The file system (Node's \<open>fs\<close> and \<open>path\<close> modules)\<close>

text \<open>
  The tracker reaches the file system through \<open>existsSync\<close>, \<open>mkdirSync\<close>,
  \<open>writeFileSync\<close>, \<open>readFileSync\<close> and \<open>unlinkSync\<close>. The model of the file system
  holds the directories, the files (a file holds the snapshot that was written to it)
  and \<open>fsCalls\<close>, the calls that were made to change it, in the order they were made; a
  call that throws is in the list too. \<open>RenameSync\<close> is the call of the module that
  moves one file onto another. \<open>writable\<close> says whether a call that changes the file
  system succeeds; \<open>writeFileSync\<close> also throws when the directory of the file is
  missing. \<open>dirname\<close> is \<open>path.dirname\<close> on a path that does not end in a slash.
\<close>

datatype FsCall =
    MkdirSync string
  | WriteFileSync string ProgressState
  | UnlinkSync string
  | RenameSync string string

datatype FsError = EACCES | ENOENT

record FileSystem =
  directories :: "string set"
  files :: "string \<rightharpoonup> ProgressState"
  writable :: bool
  fsCalls :: "FsCall list"

definition dirname :: "string \<Rightarrow> string" where
  "dirname p =
     (if CHR ''/'' \<in> set p
      then
        let d = rev (dropWhile (\<lambda>ch. ch = CHR ''/'') (dropWhile (\<lambda>ch. ch \<noteq> CHR ''/'') (rev p)))
        in if d = [] then ''/'' else d
      else ''.'')"

definition existsSync :: "string \<Rightarrow> FileSystem \<Rightarrow> bool" where
  "existsSync p f = (case files f p of Some s \<Rightarrow> True | None \<Rightarrow> p \<in> directories f)"

definition mkdirSync :: "string \<Rightarrow> FileSystem \<Rightarrow> FsError option \<times> FileSystem" where
  "mkdirSync p f =
     (let f1 = f\<lparr> fsCalls := fsCalls f @ [MkdirSync p] \<rparr>
      in if writable f then (None, f1\<lparr> directories := insert p (directories f1) \<rparr>)
         else (Some EACCES, f1))"

definition writeFileSync :: "string \<Rightarrow> ProgressState \<Rightarrow> FileSystem \<Rightarrow> FsError option \<times> FileSystem" where
  "writeFileSync p s f =
     (let f1 = f\<lparr> fsCalls := fsCalls f @ [WriteFileSync p s] \<rparr>
      in if dirname p \<in> directories f
         then (if writable f then (None, f1\<lparr> files := (files f1)(p \<mapsto> s) \<rparr>)
               else (Some EACCES, f1))
         else (Some ENOENT, f1))"

definition unlinkSync :: "string \<Rightarrow> FileSystem \<Rightarrow> FsError option \<times> FileSystem" where
  "unlinkSync p f =
     (let f1 = f\<lparr> fsCalls := fsCalls f @ [UnlinkSync p] \<rparr>
      in case files f p of
           None \<Rightarrow> (Some ENOENT, f1)
         | Some s \<Rightarrow>
             if writable f then (None, f1\<lparr> files := (files f1)(p := None) \<rparr>)
             else (Some EACCES, f1))"

section \<open>The progress tracker (src/progressTracker.ts)\<close>

text \<open>
  The class \<open>ProgressTracker\<close> has the private fields \<open>state\<close>, \<open>messageResults\<close>,
  \<open>delays\<close> and \<open>progressFile\<close>, the path \<open>./data/progress.json\<close>. The file system it
  writes to is carried with the object as \<open>fileSystem\<close>. \<open>saveProgress\<close> creates the
  directory of the file when it is missing and then writes \<open>JSON.stringify(this.state)\<close>
  to the file; when one of the calls throws, the \<open>catch\<close> clause logs the error and the
  method returns. \<open>loadProgress\<close> returns the snapshot in the file, and \<open>null\<close> when the
  file is missing.
\<close>

record ProgressTracker =
  state :: ProgressState
  messageResults :: "MessageResult list"
  delays :: "int list"
  progressFile :: string
  fileSystem :: FileSystem

definition newProgressTracker :: "int \<Rightarrow> FileSystem \<Rightarrow> ProgressTracker" where
  "newProgressTracker now fs =
     \<lparr> state = \<lparr> totalCustomers = 0, processedCustomers = 0, successfulSends = 0,
                 failedSends = 0, skippedCustomers = 0, startTime = now,
                 lastProcessedIndex = - 1, currentBatch = 0 \<rparr>,
       messageResults = [], delays = [], progressFile = ''./data/progress.json'',
       fileSystem = fs \<rparr>"

definition saveProgress :: "ProgressTracker \<Rightarrow> ProgressTracker" where
  "saveProgress t =
     (let dir = dirname (progressFile t);
          (thrown, fs1) = (if \<not> existsSync dir (fileSystem t) then mkdirSync dir (fileSystem t)
                           else (None, fileSystem t))
      in case thrown of
           Some e \<Rightarrow> t\<lparr> fileSystem := fs1 \<rparr>
         | None \<Rightarrow> t\<lparr> fileSystem := snd (writeFileSync (progressFile t) (state t) fs1) \<rparr>)"

definition initialize :: "int \<Rightarrow> int \<Rightarrow> ProgressTracker \<Rightarrow> ProgressTracker" where
  "initialize totalCount now t =
     saveProgress (t\<lparr> state := (state t)\<lparr> totalCustomers := totalCount, startTime := now \<rparr> \<rparr>)"

definition loadProgress :: "ProgressTracker \<Rightarrow> ProgressState option" where
  "loadProgress t =
     (if existsSync (progressFile t) (fileSystem t) then files (fileSystem t) (progressFile t)
      else None)"

definition recordResult :: "MessageResult \<Rightarrow> int \<Rightarrow> ProgressTracker \<Rightarrow> ProgressTracker" where
  "recordResult result delay t =
     (let t1 = t\<lparr> messageResults := messageResults t @ [result], delays := delays t @ [delay] \<rparr>;
          s1 = (state t1)\<lparr> processedCustomers := processedCustomers (state t1) + 1 \<rparr>;
          s2 = (if success result
                then s1\<lparr> successfulSends := successfulSends s1 + 1 \<rparr>
                else s1\<lparr> failedSends := failedSends s1 + 1 \<rparr>);
          s3 = s2\<lparr> lastProcessedIndex := processedCustomers s2 - 1 \<rparr>;
          t2 = t1\<lparr> state := s3 \<rparr>
      in if processedCustomers s3 mod 10 = 0 then saveProgress t2 else t2)"

definition recordSkipped :: "ProgressTracker \<Rightarrow> ProgressTracker" where
  "recordSkipped t =
     (let s1 = (state t)\<lparr> skippedCustomers := skippedCustomers (state t) + 1 \<rparr>
      in t\<lparr> state := s1\<lparr> processedCustomers := processedCustomers s1 + 1 \<rparr> \<rparr>)"

definition incrementBatch :: "ProgressTracker \<Rightarrow> ProgressTracker" where
  "incrementBatch t = t\<lparr> state := (state t)\<lparr> currentBatch := currentBatch (state t) + 1 \<rparr> \<rparr>"

definition getState :: "ProgressTracker \<Rightarrow> ProgressState" where
  "getState t = state t"

definition getFailedCustomers :: "ProgressTracker \<Rightarrow> ProcessedCustomer list" where
  "getFailedCustomers t = map customer (filter (\<lambda>r. \<not> success r) (messageResults t))"

definition clearProgress :: "ProgressTracker \<Rightarrow> ProgressTracker" where
  "clearProgress t =
     (if existsSync (progressFile t) (fileSystem t)
      then t\<lparr> fileSystem := snd (unlinkSync (progressFile t) (fileSystem t)) \<rparr>
      else t)"

text \<open>
  The public methods of the class, as the operations a client can apply to the
  singleton. The read-only methods (\<open>loadProgress\<close>, \<open>getState\<close>, \<open>getSuccessRate\<close>,
  \<open>getAverageDelay\<close>, \<open>calculateETA\<close>, \<open>generateReport\<close>, \<open>getFailedCustomers\<close>,
  \<open>displayStats\<close>) return a value or print and leave the object as it is; \<open>getState\<close>
  returns a copy, so a caller cannot reach the private state through it.
\<close>

datatype TrackerOp =
    Initialize int int
  | SaveProgress
  | RecordResult MessageResult int
  | RecordSkipped
  | IncrementBatch
  | ClearProgress
  | ReadOnly

fun applyOp :: "TrackerOp \<Rightarrow> ProgressTracker \<Rightarrow> ProgressTracker" where
  "applyOp (Initialize totalCount now) t = initialize totalCount now t"
| "applyOp SaveProgress t = saveProgress t"
| "applyOp (RecordResult r d) t = recordResult r d t"
| "applyOp RecordSkipped t = recordSkipped t"
| "applyOp IncrementBatch t = incrementBatch t"
| "applyOp ClearProgress t = clearProgress t"
| "applyOp ReadOnly t = t"

definition applyOps :: "TrackerOp list \<Rightarrow> ProgressTracker \<Rightarrow> ProgressTracker" where
  "applyOps ops t = foldl (\<lambda>t' op. applyOp op t') t ops"

text \<open>The four counters of the claim, and the balance between them.\<close>

definition counters :: "ProgressTracker \<Rightarrow> int \<times> int \<times> int \<times> int" where
  "counters t = (processedCustomers (state t), successfulSends (state t),
                 failedSends (state t), skippedCustomers (state t))"

definition balanced :: "ProgressTracker \<Rightarrow> bool" where
  "balanced t \<longleftrightarrow>
     processedCustomers (state t) =
       successfulSends (state t) + failedSends (state t) + skippedCustomers (state t)"

fun counterEffect :: "TrackerOp \<Rightarrow> int \<times> int \<times> int \<times> int \<Rightarrow> int \<times> int \<times> int \<times> int" where
  "counterEffect (RecordResult r d) (p, s, f, k) =
     (if success r then (p + 1, s + 1, f, k) else (p + 1, s, f + 1, k))"
| "counterEffect RecordSkipped (p, s, f, k) = (p + 1, s, f, k + 1)"
| "counterEffect _ c = c"

section \<open>Configuration (config.ts)\<close>

text \<open>
  The fields of \<open>config\<close> that the modelled functions read, with the values of the
  source. The nested objects are flattened: \<open>timing.delayBetweenMessages.min\<close> is
  \<open>delayBetweenMessages_min\<close>, \<open>rateLimiting.enabled\<close> is \<open>rateLimiting_enabled\<close>. The
  message templates are Arabic text; they are parameters of the model (\<open>Env\<close> below).
\<close>

record Config =
  delayBetweenMessages_min :: int
  delayBetweenMessages_max :: int
  batchSize :: int
  delayBetweenBatches :: int
  initialWarmupDelay :: int
  retryDelay :: int
  maxRetries :: nat
  countryCode :: string
  phoneNumberLength :: nat
  rateLimiting_enabled :: bool
  maxMessagesPerDay :: int
  maxMessagesPerHour :: int

definition config :: Config where
  "config = \<lparr> delayBetweenMessages_min = 5000, delayBetweenMessages_max = 12000,
              batchSize = 20, delayBetweenBatches = 120000, initialWarmupDelay = 15000,
              retryDelay = 30000, maxRetries = 3, countryCode = ''20'',
              phoneNumberLength = 12, rateLimiting_enabled = True,
              maxMessagesPerDay = 500, maxMessagesPerHour = 100 \<rparr>"

definition shouldTakeBatchBreak :: "Config \<Rightarrow> int \<Rightarrow> bool" where
  \<comment> \<open>\<open>messageCount % 0\<close> is \<open>NaN\<close>, which is not \<open>=== 0\<close>.\<close>
  "shouldTakeBatchBreak c messageCount \<longleftrightarrow>
     messageCount > 0 \<and> batchSize c \<noteq> 0 \<and> messageCount mod batchSize c = 0"

section \<open>Phone numbers (src/validators.ts)\<close>

text \<open>
  A string is a list of characters. \<open>/\D/g\<close> matches every character that is not one
  of the ten ASCII digits, \<open>s.startsWith(p)\<close> says that \<open>p\<close> is a prefix of \<open>s\<close>, and
  \<open>s.substring(1)\<close> drops the first character.
\<close>

definition isDigit :: "char \<Rightarrow> bool" where
  "isDigit ch \<longleftrightarrow> ch \<in> set ''0123456789''"

definition startsWith :: "string \<Rightarrow> string \<Rightarrow> bool" where
  "startsWith s p \<longleftrightarrow> prefix p s"

definition cleanPhoneNumber :: "string \<Rightarrow> string" where
  "cleanPhoneNumber phone = filter isDigit phone"

definition formatPhoneNumber :: "Config \<Rightarrow> string \<Rightarrow> string" where
  "formatPhoneNumber c phone =
     (let cleaned = cleanPhoneNumber phone
      in if startsWith cleaned ''0'' then countryCode c @ drop 1 cleaned
         else if \<not> startsWith cleaned (countryCode c) then countryCode c @ cleaned
         else cleaned)"

section \<open>Duplicate rows of the CSV file (src/csvParser.ts)\<close>

text \<open>
  The loop of \<open>parseCSV\<close> over the data lines, from the values that \<open>parseCSVLine\<close>
  returns for a line: a line with fewer values than headers is left out; the customer
  object gets, for every header, the value at the header's index (a later header of
  the same name overwrites an earlier one); a row whose \<open>Code\<close> is already in
  \<open>seenCodes\<close> is left out with a warning. \<open>validateCSVStructure\<close> has checked before the
  loop that the four headers of a \<open>Customer\<close> are there, so the lookup of a field finds
  a value.
\<close>

definition rowCustomer :: "string list \<Rightarrow> string list \<Rightarrow> Customer" where
  "rowCustomer headers vals =
     (let obj = map_of (rev (zip headers vals));
          field = (\<lambda>h. case obj h of Some v \<Rightarrow> v | None \<Rightarrow> [])
      in \<lparr> Code = field ''Code'', CustomerName = field ''CustomerName'',
           Phone = field ''Phone'', Mobile = field ''Mobile'' \<rparr>)"

definition parseRow ::
  "string list \<Rightarrow> Customer list \<times> string set \<Rightarrow> string list \<Rightarrow> Customer list \<times> string set" where
  "parseRow headers acc vals =
     (if length vals < length headers then acc
      else
        let c = rowCustomer headers vals
        in if Code c \<in> snd acc then acc
           else (fst acc @ [c], insert (Code c) (snd acc)))"

definition parseRows :: "string list \<Rightarrow> string list list \<Rightarrow> Customer list" where
  "parseRows headers rows = fst (foldl (parseRow headers) ([], {}) rows)"


section \<open>JavaScript numbers\<close>

text \<open>
  \<open>Math.random()\<close> returns a double, and the product of a double and an integer is
  rounded to the nearest double, ties to even, before \<open>Math.floor\<close> sees it. A finite
  double is \<open>mantissa * 2 ^ exponent\<close>. \<open>roundToDouble m e\<close> rounds \<open>m * 2 ^ e\<close> to 53
  significant bits: \<open>s\<close> is the number of bits that do not fit, \<open>q\<close> the bits that are
  kept and \<open>r\<close> the bits that are cut off. \<open>jsMultiply d n\<close> is \<open>d * n\<close> for a double \<open>d\<close>
  and an integer \<open>n\<close> that is a double itself (up to \<open>2^53\<close> every integer is), and
  \<open>jsFloor\<close> is \<open>Math.floor\<close>, which is exact. \<open>unitDouble d\<close> says that \<open>d\<close> is a double
  in \<open>[0, 1)\<close>, the range of \<open>Math.random()\<close>; the smallest positive double is
  \<open>2 ^ -1074\<close>. The product of such a double and a positive integer is below that
  integer, so it neither overflows nor falls under the smallest double.
\<close>

record Double =
  mantissa :: int
  exponent :: int

fun bitLength :: "nat \<Rightarrow> nat" where
  "bitLength n = (if n = 0 then 0 else Suc (bitLength (n div 2)))"

declare bitLength.simps [simp del]

definition roundToDouble :: "int \<Rightarrow> int \<Rightarrow> Double" where
  "roundToDouble m e =
     (let a = nat \<bar>m\<bar>;
          s = bitLength a - 53;
          q = a div 2 ^ s;
          r = a mod 2 ^ s;
          up = (s > 0 \<and> (r > 2 ^ (s - 1) \<or> (r = 2 ^ (s - 1) \<and> odd q)))
      in \<lparr> mantissa = sgn m * int (if up then q + 1 else q), exponent = e + int s \<rparr>)"

definition jsMultiply :: "Double \<Rightarrow> int \<Rightarrow> Double" where
  "jsMultiply d n = roundToDouble (mantissa d * n) (exponent d)"

definition jsFloor :: "Double \<Rightarrow> int" where
  "jsFloor d =
     (if 0 \<le> exponent d then mantissa d * 2 ^ nat (exponent d)
      else mantissa d div 2 ^ nat (- exponent d))"

definition unitDouble :: "Double \<Rightarrow> bool" where
  "unitDouble d \<longleftrightarrow>
     0 \<le> mantissa d \<and> mantissa d < 2 ^ 53 \<and> - 1074 \<le> exponent d \<and>
     (mantissa d = 0 \<or> (exponent d < 0 \<and> mantissa d < 2 ^ nat (- exponent d)))"

section \<open>The dispatch loop (index.ts, config.ts, src/messageHandler.ts)\<close>

text \<open>
  What the loop does to the outside is a list of events and a clock. \<open>Delay ms\<close> is one
  call of \<open>delay(ms)\<close>; \<open>CheckNumberStatus\<close> and \<open>SendText\<close> are the two calls to the
  venom-bot client; \<open>Attempt k\<close> marks the entry into the body of the retry loop with
  \<open>attempt = k\<close>.
\<close>

datatype Event =
    Attempt nat
  | CheckNumberStatus string
  | SendText string string
  | Delay int

text \<open>
  A value that a call throws is seen by the \<open>catch\<close> clause through its \<open>message\<close>
  property and through \<open>String(error)\<close>: \<open>errorMessage\<close> is the property (the empty
  string when the value has none) and \<open>errorString\<close> is the conversion. For
  \<open>new Error('x')\<close> they are \<open>x\<close> and \<open>Error: x\<close>.
\<close>

record JsError =
  errorMessage :: string
  errorString :: string

text \<open>
  The environment holds what the source takes from outside: the configuration and the
  templates; \<open>Math.random()\<close> as a sequence of doubles (the \<open>n\<close>-th draw is \<open>random n\<close>,
  which JavaScript promises to be in \<open>[0, 1)\<close>); the client, whose answer to the
  \<open>n\<close>-th attempt is \<open>Inl e\<close> or \<open>Some e\<close> when the call throws \<open>e\<close>; the substitution
  of the placeholders in a template (the \<open>replace\<close> chain, \<open>trim\<close> and truncation of
  \<open>renderMessageTemplate\<close>); and the flag \<open>isShuttingDown\<close>, set by a signal handler, as
  a function of the clock. Logging is left out. The recipients are a list, so no
  element is \<open>undefined\<close> and the test \<open>if (!customer) continue\<close> of the loop never fires.
\<close>

record Env =
  cfg :: Config
  messageTemplates :: "string list"
  defaultTemplate :: string
  random :: "nat \<Rightarrow> Double"
  substitute :: "string \<Rightarrow> ProcessedCustomer \<Rightarrow> string"
  checkNumberStatus :: "nat \<Rightarrow> string \<Rightarrow> JsError + bool"
  sendText :: "nat \<Rightarrow> string \<Rightarrow> string \<Rightarrow> JsError option"
  isShuttingDown :: "int \<Rightarrow> bool"

record World =
  tracker :: ProgressTracker
  clock :: int
  events :: "Event list"
  calls :: nat
  draws :: nat

text \<open>
  The world at the start of a run: the clock at 0, nothing drawn and nothing called, and
  a file system that holds the working directory and nothing else.
\<close>

definition newFileSystem :: "bool \<Rightarrow> FileSystem" where
  "newFileSystem canWrite =
     \<lparr> directories = {''.''}, files = Map.empty, writable = canWrite, fsCalls = [] \<rparr>"

definition newWorld :: "bool \<Rightarrow> World" where
  "newWorld canWrite =
     \<lparr> tracker = newProgressTracker 0 (newFileSystem canWrite), clock = 0, events = [],
       calls = 0, draws = 0 \<rparr>"

definition delay :: "int \<Rightarrow> World \<Rightarrow> World" where
  "delay ms w = w\<lparr> clock := clock w + max 0 ms, events := events w @ [Delay ms] \<rparr>"

text \<open>
  \<open>Math.floor(Math.random() * (max - min + 1)) + min\<close>. The bounds are integers of the
  configuration; the difference and the sum are exact as long as the bounds and the
  results stay below \<open>2^53\<close> in size, and the product is rounded.
\<close>

definition getRandomDelay :: "Env \<Rightarrow> bool \<Rightarrow> World \<Rightarrow> int \<times> World" where
  "getRandomDelay env isWarmup w =
     (if isWarmup then (initialWarmupDelay (cfg env), w)
      else
        let lo = delayBetweenMessages_min (cfg env); hi = delayBetweenMessages_max (cfg env)
        in (jsFloor (jsMultiply (random env (draws w)) (hi - lo + 1)) + lo,
            w\<lparr> draws := draws w + 1 \<rparr>))"

text \<open>
  \<open>templates[k]\<close> is \<open>undefined\<close> when \<open>k\<close> is not an index of the array; the \<open>replace\<close>
  that follows then throws a \<open>TypeError\<close>. \<open>getRandomTemplate\<close> returns \<open>None\<close> there, and
  \<open>undefinedTemplateError\<close> is the value thrown, with the text that Node gives it.
\<close>

definition getRandomTemplate :: "Env \<Rightarrow> World \<Rightarrow> string option \<times> World" where
  "getRandomTemplate env w =
     (let templates = (if length (messageTemplates env) > 0 then messageTemplates env
                       else [defaultTemplate env]);
          k = jsFloor (jsMultiply (random env (draws w)) (int (length templates)))
      in (if 0 \<le> k \<and> k < int (length templates) then Some (templates ! nat k) else None,
          w\<lparr> draws := draws w + 1 \<rparr>))"

definition undefinedTemplateError :: JsError where
  "undefinedTemplateError =
     \<lparr> errorMessage = ''Cannot read properties of undefined (reading 'replace')'',
       errorString = ''TypeError: Cannot read properties of undefined (reading 'replace')'' \<rparr>"

definition formatWhatsAppNumber :: "string \<Rightarrow> string" where
  "formatWhatsAppNumber phone = phone @ ''@c.us''"

datatype AttemptOutcome = Returned MessageResult | Thrown JsError

text \<open>
  The body of the \<open>try\<close> block, in two parts: \<open>tryAttempt\<close> renders the message and
  \<open>callClient\<close> makes the two calls to the client. \<open>Thrown e\<close> is an exception that the
  \<open>catch\<close> clause receives; the clause keeps \<open>error?.message || String(error)\<close>, which is
  \<open>lastErrorOf e\<close>.
\<close>

definition callClient ::
  "Env \<Rightarrow> ProcessedCustomer \<Rightarrow> nat \<Rightarrow> string \<Rightarrow> World \<Rightarrow> AttemptOutcome \<times> World" where
  "callClient env c attempt message w =
     (let whatsappNumber = formatWhatsAppNumber (formattedPhone c);
          k = calls w;
          w1 = w\<lparr> calls := k + 1, events := events w @ [CheckNumberStatus whatsappNumber] \<rparr>
      in case checkNumberStatus env k whatsappNumber of
           Inl e \<Rightarrow> (Thrown e, w1)
         | Inr numberExists \<Rightarrow>
             if \<not> numberExists
             then (Returned \<lparr> customer = c, success = False, timestamp = clock w1,
                              error = Some ''Phone number not registered on WhatsApp'',
                              retryCount = attempt \<rparr>, w1)
             else
               let w2 = w1\<lparr> events := events w1 @ [SendText whatsappNumber message] \<rparr>
               in case sendText env k whatsappNumber message of
                    Some e \<Rightarrow> (Thrown e, w2)
                  | None \<Rightarrow>
                      (Returned \<lparr> customer = c, success = True, timestamp = clock w2,
                                   error = None, retryCount = attempt \<rparr>, w2))"

definition tryAttempt :: "Env \<Rightarrow> ProcessedCustomer \<Rightarrow> nat \<Rightarrow> World \<Rightarrow> AttemptOutcome \<times> World" where
  "tryAttempt env c attempt w =
     (let (tmpl, w1) = getRandomTemplate env (w\<lparr> events := events w @ [Attempt attempt] \<rparr>)
      in case tmpl of
           None \<Rightarrow> (Thrown undefinedTemplateError, w1)
         | Some t \<Rightarrow> callClient env c attempt (substitute env t c) w1)"

definition lastErrorOf :: "JsError \<Rightarrow> string" where
  "lastErrorOf e = (if errorMessage e \<noteq> [] then errorMessage e else errorString e)"

function retryLoop ::
  "Env \<Rightarrow> ProcessedCustomer \<Rightarrow> nat \<Rightarrow> string \<Rightarrow> World \<Rightarrow> MessageResult \<times> World" where
  "retryLoop env c attempt lastError w =
     (if attempt \<le> maxRetries (cfg env)
      then
        (case tryAttempt env c attempt w of
           (Returned r, w') \<Rightarrow> (r, w')
         | (Thrown e, w') \<Rightarrow>
             retryLoop env c (attempt + 1) (lastErrorOf e)
               (if attempt < maxRetries (cfg env) then delay (retryDelay (cfg env)) w' else w'))
      else (\<lparr> customer = c, success = False, timestamp = clock w, error = Some lastError,
              retryCount = maxRetries (cfg env) \<rparr>, w))"
  by pat_completeness auto
termination
  by (relation "measure (\<lambda>(env, c, attempt, lastError, w). Suc (maxRetries (cfg env)) - attempt)")
     auto

declare retryLoop.simps [simp del]

definition sendMessageWithRetry ::
  "Env \<Rightarrow> ProcessedCustomer \<Rightarrow> bool \<Rightarrow> World \<Rightarrow> MessageResult \<times> World" where
  "sendMessageWithRetry env c isWarmup w = retryLoop env c 0 [] w"

text \<open>One pass through the body of the \<open>for\<close> loop of \<open>sendMessagesToCustomers\<close>.\<close>

definition iteration :: "Env \<Rightarrow> nat \<Rightarrow> ProcessedCustomer \<Rightarrow> World \<Rightarrow> World" where
  "iteration env i c w =
     (let isWarmup = i < 5;
          (result, w1) = sendMessageWithRetry env c isWarmup w;
          (delayMs, w2) = getRandomDelay env isWarmup w1;
          w3 = w2\<lparr> tracker := recordResult result delayMs (tracker w2) \<rparr>
      in if shouldTakeBatchBreak (cfg env) (int i + 1)
         then delay (delayBetweenBatches (cfg env))
                (w3\<lparr> tracker := incrementBatch (tracker w3) \<rparr>)
         else delay delayMs w3)"

fun sendLoop :: "Env \<Rightarrow> nat \<Rightarrow> ProcessedCustomer list \<Rightarrow> World \<Rightarrow> World" where
  "sendLoop env i [] w = w"
| "sendLoop env i (c # cs) w =
     (if isShuttingDown env (clock w) then w
      else sendLoop env (i + 1) cs (iteration env i c w))"

definition sendMessagesToCustomers :: "Env \<Rightarrow> ProcessedCustomer list \<Rightarrow> World \<Rightarrow> World" where
  "sendMessagesToCustomers env customers w = sendLoop env 0 customers w"

section \<open>Observations on a run\<close>

text \<open>
  \<open>transientAt env k n\<close>: the \<open>k\<close>-th attempt on the number \<open>n\<close> ends in an exception, thrown
  by \<open>checkNumberStatus\<close> or, when the number exists, by \<open>sendText\<close>. \<open>withoutSendText\<close>
  drops the \<open>sendText\<close> calls from an event list, and \<open>attemptSchedule rd n a m\<close> is the
  list \<open>Attempt a, CheckNumberStatus n, Delay rd, Attempt (a + 1), CheckNumberStatus n,
  ..., Delay rd, Attempt m, CheckNumberStatus n\<close>. \<open>numberExistsAt env n k\<close>: the \<open>k\<close>-th
  call of \<open>checkNumberStatus\<close> reports the number \<open>n\<close> as registered.
\<close>

definition transientAt :: "Env \<Rightarrow> nat \<Rightarrow> string \<Rightarrow> bool" where
  "transientAt env k whatsappNumber \<longleftrightarrow>
     (case checkNumberStatus env k whatsappNumber of
        Inl e \<Rightarrow> True
      | Inr numberExists \<Rightarrow> numberExists \<and> (\<forall>m. sendText env k whatsappNumber m \<noteq> None))"

fun isCheckNumberStatus :: "Event \<Rightarrow> bool" where
  "isCheckNumberStatus (CheckNumberStatus n) = True"
| "isCheckNumberStatus _ = False"

fun isSendText :: "Event \<Rightarrow> bool" where
  "isSendText (SendText n m) = True"
| "isSendText _ = False"

definition withoutSendText :: "Event list \<Rightarrow> Event list" where
  "withoutSendText es = filter (\<lambda>e. \<not> isSendText e) es"

definition attemptSchedule :: "int \<Rightarrow> string \<Rightarrow> nat \<Rightarrow> nat \<Rightarrow> Event list" where
  "attemptSchedule rd n a m =
     concat (map (\<lambda>k. Attempt k # CheckNumberStatus n # (if k < m then [Delay rd] else []))
                 [a ..< Suc m])"

definition numberExistsAt :: "Env \<Rightarrow> string \<Rightarrow> nat \<Rightarrow> bool" where
  "numberExistsAt env n k \<longleftrightarrow> checkNumberStatus env k n = Inr True"

text \<open>
  \<open>runBefore env cs w i\<close> is the world in which the run over the recipients \<open>cs\<close> arrives
  at index \<open>i\<close>: the run over the first \<open>i\<close> recipients. \<open>reaches env cs w i\<close>: the list has
  a recipient at index \<open>i\<close> and no shutdown is requested when the run arrives there, so
  the loop makes its pass for that recipient. \<open>computedDelay\<close> is the value that
  \<open>getRandomDelay\<close> returns in the pass for the recipient \<open>c\<close> at index \<open>i\<close>.
\<close>

definition runBefore :: "Env \<Rightarrow> ProcessedCustomer list \<Rightarrow> World \<Rightarrow> nat \<Rightarrow> World" where
  "runBefore env cs w i = sendMessagesToCustomers env (take i cs) w"

definition reaches :: "Env \<Rightarrow> ProcessedCustomer list \<Rightarrow> World \<Rightarrow> nat \<Rightarrow> bool" where
  "reaches env cs w i \<longleftrightarrow> i < length cs \<and> \<not> isShuttingDown env (clock (runBefore env cs w i))"

definition computedDelay :: "Env \<Rightarrow> nat \<Rightarrow> ProcessedCustomer \<Rightarrow> World \<Rightarrow> int" where
  "computedDelay env i c w =
     fst (getRandomDelay env (i < 5) (snd (sendMessageWithRetry env c (i < 5) w)))"

text \<open>
  The concrete inputs of the examples. \<open>sampleCustomer\<close> is one recipient with the number
  of the README. \<open>sampleEnv\<close> has one template without placeholders, for which the
  \<open>replace\<close> chain, \<open>trim\<close> and the truncation of \<open>renderMessageTemplate\<close> return the
  template as it is, a source of randomness that always draws \<open>1/2\<close>, and a client given
  by its two functions. The client of \<open>deliveringWith c\<close> and of \<open>deliveringEnv\<close>, which
  has the configuration of \<open>config.ts\<close>, delivers every message, the calls
  of the client of \<open>failingEnv\<close> all throw, and the client of \<open>unregisteredEnv\<close> reports
  every number as not registered. \<open>numberedCustomer k\<close> is the \<open>k\<close>-th of a list of
  recipients with distinct codes and numbers, and \<open>sharedPhoneCustomer\<close> is a second
  recipient with the number of \<open>sampleCustomer\<close>. \<open>deliveringPacing i\<close> is the delay that
  ends the pass at index \<open>i\<close> under \<open>deliveringEnv\<close>, and \<open>hourlyRun\<close> is the run over 101
  recipients.
\<close>

definition sampleCustomer :: ProcessedCustomer where
  "sampleCustomer =
     \<lparr> Code = ''1'', CustomerName = ''A'', Phone = ''201027056703'', Mobile = ''201027056703'',
       selectedPhone = ''201027056703'', formattedPhone = ''201027056703'', isValid = True,
       validationError = None \<rparr>"

definition sharedPhoneCustomer :: ProcessedCustomer where
  "sharedPhoneCustomer = sampleCustomer\<lparr> Code := ''2'', CustomerName := ''B'' \<rparr>"

definition sampleEnv ::
  "Config \<Rightarrow> (nat \<Rightarrow> string \<Rightarrow> JsError + bool) \<Rightarrow> (nat \<Rightarrow> string \<Rightarrow> string \<Rightarrow> JsError option) \<Rightarrow> Env" where
  "sampleEnv c check send =
     \<lparr> cfg = c, messageTemplates = [''Hello''], defaultTemplate = ''Hello'',
       random = (\<lambda>n. \<lparr> mantissa = 1, exponent = - 1 \<rparr>), substitute = (\<lambda>t c. t),
       checkNumberStatus = check, sendText = send, isShuttingDown = (\<lambda>t. False) \<rparr>"

definition connectionLost :: JsError where
  "connectionLost = \<lparr> errorMessage = ''Connection lost'', errorString = ''Error: Connection lost'' \<rparr>"

definition deliveringWith :: "Config \<Rightarrow> Env" where
  "deliveringWith c = sampleEnv c (\<lambda>k n. Inr True) (\<lambda>k n m. None)"

definition deliveringEnv :: Env where
  "deliveringEnv = sampleEnv config (\<lambda>k n. Inr True) (\<lambda>k n m. None)"

definition failingEnv :: Env where
  "failingEnv = sampleEnv config (\<lambda>k n. Inl connectionLost) (\<lambda>k n m. None)"

definition unregisteredEnv :: Env where
  "unregisteredEnv = sampleEnv config (\<lambda>k n. Inr False) (\<lambda>k n m. None)"

definition pad3 :: "nat \<Rightarrow> string" where
  "pad3 k = map (\<lambda>d. ''0123456789'' ! d) [k div 100 mod 10, k div 10 mod 10, k mod 10]"

definition numberedCustomer :: "nat \<Rightarrow> ProcessedCustomer" where
  "numberedCustomer k =
     \<lparr> Code = pad3 k, CustomerName = ''Customer '' @ pad3 k,
       Phone = ''201027056'' @ pad3 k, Mobile = ''201027056'' @ pad3 k,
       selectedPhone = ''201027056'' @ pad3 k, formattedPhone = ''201027056'' @ pad3 k,
       isValid = True, validationError = None \<rparr>"

definition deliveringPacing :: "nat \<Rightarrow> int" where
  "deliveringPacing i =
     (if (int i + 1) mod 20 = 0 then 120000 else if i < 5 then 15000 else 8500)"

definition hourlyRun :: World where
  "hourlyRun = sendMessagesToCustomers deliveringEnv (map numberedCustomer [0 ..< 101]) (newWorld True)"

section \<open>The save mechanism that the specification names\<close>

text \<open>
  The specification asks for a save that is atomic, by writing the snapshot to a
  temporary file and renaming it onto the progress file, or an equivalent. On the list
  of the calls of a save, \<open>tempThenRename p s\<close> says that a write of the snapshot \<open>s\<close> to
  a file other than \<open>p\<close> is followed at once by the renaming of that file to \<open>p\<close>, and
  \<open>writesTo p\<close> says that a call writes to \<open>p\<close> itself, the step that a reader of \<open>p\<close>
  can see half done. \<open>atomicSave p s\<close> holds of the lists of calls that replace \<open>p\<close>
  by the renaming and never write to it.
\<close>

fun writesTo :: "string \<Rightarrow> FsCall \<Rightarrow> bool" where
  "writesTo p (WriteFileSync q s) = (q = p)"
| "writesTo p c = False"

fun isRenameSync :: "FsCall \<Rightarrow> bool" where
  "isRenameSync (RenameSync src dst) = True"
| "isRenameSync c = False"

fun tempThenRename :: "string \<Rightarrow> ProgressState \<Rightarrow> FsCall list \<Rightarrow> bool" where
  "tempThenRename p s (WriteFileSync tmp s' # RenameSync src dst # cs) =
     (if tmp \<noteq> p \<and> s' = s \<and> src = tmp \<and> dst = p then True
      else tempThenRename p s (RenameSync src dst # cs))"
| "tempThenRename p s (c # cs) = tempThenRename p s cs"
| "tempThenRename p s [] = False"

definition atomicSave :: "string \<Rightarrow> ProgressState \<Rightarrow> FsCall list \<Rightarrow> bool" where
  "atomicSave p s cs \<longleftrightarrow> tempThenRename p s cs \<and> list_all (\<lambda>c. \<not> writesTo p c) cs"

text \<open>
  \<open>saveCalls t\<close> is the list of the calls that \<open>saveProgress\<close> makes in the tracker state
  \<open>t\<close>, and \<open>freshTracker\<close> is the tracker of a program that has just started, in a
  working directory that has no \<open>data\<close> directory yet.
\<close>

definition saveCalls :: "ProgressTracker \<Rightarrow> FsCall list" where
  "saveCalls t = drop (length (fsCalls (fileSystem t))) (fsCalls (fileSystem (saveProgress t)))"

definition freshTracker :: ProgressTracker where
  "freshTracker = newProgressTracker 0 (newFileSystem True)"

section \<open>The template rotation of the Go program (package main)\<close>

text \<open>
  The repository also holds a Go program with the same loop. Its function
  \<open>getNextTemplateInPermutation\<close> selects templates in rotation, which the TypeScript
  files do not do. It reads and writes the globals \<open>selectedTemplates\<close> and
  \<open>templatePermutationIdx\<close> (the record \<open>Rotator\<close>); \<open>builtin\<close> is the global
  \<open>messageTemplates\<close>, used when nothing is selected. Indexing a slice out of range is a
  run-time panic; on an empty slice the index 0 is out of range, so the panic comes
  before the division by the length. \<open>nextTemplates builtin m r\<close> is \<open>m\<close> calls in a row.
\<close>

datatype GoPanic = IndexOutOfRange

record Rotator =
  selectedTemplates :: "string list"
  templatePermutationIdx :: nat

definition getNextTemplateInPermutation ::
  "string list \<Rightarrow> Rotator \<Rightarrow> GoPanic + string \<times> Rotator" where
  "getNextTemplateInPermutation builtin r =
     (let sel = (if length (selectedTemplates r) = 0 then builtin else selectedTemplates r)
      in if templatePermutationIdx r < length sel
         then Inr (sel ! templatePermutationIdx r,
                   \<lparr> selectedTemplates = sel,
                     templatePermutationIdx = (templatePermutationIdx r + 1) mod length sel \<rparr>)
         else Inl IndexOutOfRange)"

fun nextTemplates :: "string list \<Rightarrow> nat \<Rightarrow> Rotator \<Rightarrow> GoPanic + string list \<times> Rotator" where
  "nextTemplates builtin 0 r = Inr ([], r)"
| "nextTemplates builtin (Suc m) r =
     (case getNextTemplateInPermutation builtin r of
        Inl e \<Rightarrow> Inl e
      | Inr (t, r') \<Rightarrow>
          (case nextTemplates builtin m r' of
             Inl e \<Rightarrow> Inl e
           | Inr (ts, r'') \<Rightarrow> Inr (t # ts, r'')))"

text \<open>
  The rotation as the specification words it: the \<open>k\<close>-th call returns the template at
  index \<open>(start + k) mod N\<close>. \<open>uses n start j m\<close> counts the calls among the first \<open>m\<close>
  that return the template at index \<open>j\<close>.
\<close>

definition roundRobin :: "'a list \<Rightarrow> nat \<Rightarrow> nat \<Rightarrow> 'a list" where
  "roundRobin ts start m = map (\<lambda>k. ts ! ((start + k) mod length ts)) [0 ..< m]"

definition uses :: "nat \<Rightarrow> nat \<Rightarrow> nat \<Rightarrow> nat \<Rightarrow> nat" where
  "uses n start j m = length (filter (\<lambda>k. (start + k) mod n = j) [0 ..< m])"

text \<open>The input of the example for the rotation: three templates.\<close>

definition threeTemplates :: Rotator where
  "threeTemplates = \<lparr> selectedTemplates = [''A'', ''B'', ''C''], templatePermutationIdx = 0 \<rparr>"

section \<open>Properties of the progress tracker\<close>

lemma saveProgress_frame:
  "state (saveProgress t) = state t"
  "messageResults (saveProgress t) = messageResults t"
  "delays (saveProgress t) = delays t"
  "progressFile (saveProgress t) = progressFile t"
  by (simp_all add: saveProgress_def Let_def case_prod_beta split: option.split)

lemma clearProgress_frame:
  "state (clearProgress t) = state t"
  "messageResults (clearProgress t) = messageResults t"
  "delays (clearProgress t) = delays t"
  "progressFile (clearProgress t) = progressFile t"
  by (simp_all add: clearProgress_def)

lemma counters_applyOp: "counters (applyOp op t) = counterEffect op (counters t)"
  by (cases op)
     (simp_all add: counters_def initialize_def saveProgress_frame clearProgress_frame
        recordResult_def recordSkipped_def incrementBatch_def Let_def)

lemma balanced_counters:
  "balanced t \<longleftrightarrow> (case counters t of (p, s, f, k) \<Rightarrow> p = s + f + k)"
  by (simp add: balanced_def counters_def)

lemma balanced_applyOp:
  assumes "balanced t"
  shows "balanced (applyOp op t)"
proof -
  obtain p s f k where c: "counters t = (p, s, f, k)"
    by (cases "counters t")
  with assms have "p = s + f + k"
    by (simp add: balanced_counters)
  then have "case counterEffect op (p, s, f, k) of (p', s', f', k') \<Rightarrow> p' = s' + f' + k'"
    by (cases op) auto
  then show ?thesis
    by (simp add: balanced_counters counters_applyOp c)
qed

lemma balanced_foldl: "balanced t \<Longrightarrow> balanced (foldl (\<lambda>t' op. applyOp op t') t ops)"
  by (induction ops arbitrary: t) (simp_all add: balanced_applyOp)

lemma balanced_new: "balanced (newProgressTracker now fs)"
  by (simp add: balanced_def newProgressTracker_def)

text \<open>
  Claim C1. Every tracker state reachable from the constructor by the public methods
  satisfies \<open>processedCustomers = successfulSends + failedSends + skippedCustomers\<close>,
  whatever the file system is.
  In any tracker state, \<open>recordResult\<close> adds one to \<open>processedCustomers\<close> and one to
  exactly one of \<open>successfulSends\<close> and \<open>failedSends\<close>, \<open>recordSkipped\<close> adds one to
  \<open>processedCustomers\<close> and one to \<open>skippedCustomers\<close>, and every other operation
  leaves the four counters as they are (\<open>counterEffect\<close> is the identity on them).
\<close>

theorem progress_counters_balanced:
  "balanced (applyOps ops (newProgressTracker now fs)) \<and>
   counters (recordResult r d t) =
     (case counters t of (p, s, f, k) \<Rightarrow>
        if success r then (p + 1, s + 1, f, k) else (p + 1, s, f + 1, k)) \<and>
   counters (recordSkipped t) = (case counters t of (p, s, f, k) \<Rightarrow> (p + 1, s, f, k + 1)) \<and>
   counters (initialize n now' t) = counters t \<and>
   counters (saveProgress t) = counters t \<and>
   counters (incrementBatch t) = counters t \<and>
   counters (clearProgress t) = counters t"
proof -
  have reach: "balanced (applyOps ops (newProgressTracker now fs))"
    unfolding applyOps_def by (rule balanced_foldl) (rule balanced_new)
  have rr: "counters (recordResult r d t) =
     (case counters t of (p, s, f, k) \<Rightarrow>
        if success r then (p + 1, s + 1, f, k) else (p + 1, s, f + 1, k))"
    using counters_applyOp [of "RecordResult r d" t] by (cases "counters t") simp
  have rs: "counters (recordSkipped t) = (case counters t of (p, s, f, k) \<Rightarrow> (p + 1, s, f, k + 1))"
    using counters_applyOp [of RecordSkipped t] by (cases "counters t") simp
  have other: "counters (initialize n now' t) = counters t"
    "counters (saveProgress t) = counters t"
    "counters (incrementBatch t) = counters t"
    "counters (clearProgress t) = counters t"
    using counters_applyOp [of "Initialize n now'" t] counters_applyOp [of SaveProgress t]
      counters_applyOp [of IncrementBatch t] counters_applyOp [of ClearProgress t]
    by simp_all
  from reach rr rs other show ?thesis by blast
qed

section \<open>Properties of JavaScript numbers\<close>

text \<open>
  \<open>bitLength n\<close> is the number of binary digits of \<open>n\<close>. \<open>round_key\<close> is the rounding
  step on natural numbers: for \<open>M < 2 ^ E\<close> (the double \<open>M / 2 ^ E\<close> is below 1) with at
  most 53 bits, the product \<open>M * N\<close> rounded to 53 bits is still below \<open>N * 2 ^ E\<close>,
  because half a unit in the last place of the product is less than \<open>N\<close>.
\<close>

lemma bitLength_bounds: "0 < n \<Longrightarrow> 2 ^ (bitLength n - 1) \<le> n \<and> n < 2 ^ bitLength n"
proof (induction n rule: bitLength.induct)
  case (1 n)
  show ?case
  proof (cases "n div 2 = 0")
    case True
    with "1.prems" have n: "n = 1" by (simp add: div_eq_0_iff)
    have "bitLength (Suc 0) = Suc 0"
      by (simp add: bitLength.simps [of "Suc 0"] bitLength.simps [of 0])
    with n show ?thesis by simp
  next
    case False
    then have pos: "0 < n div 2" by simp
    from "1.IH" [OF _ pos] "1.prems"
    have ih: "2 ^ (bitLength (n div 2) - 1) \<le> n div 2" "n div 2 < 2 ^ bitLength (n div 2)"
      by simp_all
    have b: "bitLength n = Suc (bitLength (n div 2))"
      using "1.prems" by (simp add: bitLength.simps [of n])
    have bp: "0 < bitLength (n div 2)"
      using pos by (simp add: bitLength.simps [of "n div 2"])
    have "2 ^ (bitLength n - 1) = 2 * 2 ^ (bitLength (n div 2) - 1)"
      using bp by (simp add: b power_Suc [symmetric] del: power_Suc)
    also have "\<dots> \<le> 2 * (n div 2)" using ih(1) by simp
    also have "\<dots> \<le> n" by simp
    finally have lo: "2 ^ (bitLength n - 1) \<le> n" .
    have "n < 2 * (n div 2) + 2" by presburger
    also have "\<dots> \<le> 2 * 2 ^ bitLength (n div 2)" using ih(2) by simp
    finally have hi: "n < 2 ^ bitLength n" by (simp add: b)
    from lo hi show ?thesis ..
  qed
qed

lemma round_key:
  fixes M N E :: nat
  assumes M: "M < 2 ^ E" "M < 2 ^ 53" and N: "1 \<le> N"
  defines "s \<equiv> bitLength (M * N) - 53"
  defines "q \<equiv> (M * N) div 2 ^ s" and "r \<equiv> (M * N) mod 2 ^ s"
  defines "R \<equiv> (if s > 0 \<and> (r > 2 ^ (s - 1) \<or> (r = 2 ^ (s - 1) \<and> odd q)) then q + 1 else q)"
  shows "R * 2 ^ s < N * 2 ^ E"
proof -
  have split: "M * N = q * 2 ^ s + r"
    unfolding q_def r_def by (rule div_mult_mod_eq [symmetric])
  have top: "M * N + N \<le> N * 2 ^ E"
  proof -
    have "M + 1 \<le> 2 ^ E" using M(1) by simp
    then have "(M + 1) * N \<le> 2 ^ E * N" by (rule mult_le_mono1)
    then show ?thesis by (simp add: algebra_simps)
  qed
  show ?thesis
  proof (cases "s > 0")
    case False
    then have "R * 2 ^ s = M * N" by (simp add: R_def q_def)
    moreover have "M * N < M * N + N" using N by simp
    then have "M * N < N * 2 ^ E" using top by (rule less_le_trans)
    ultimately show ?thesis by (simp only:)
  next
    case True
    then have pos: "0 < M * N"
      by (cases "M * N = 0") (simp_all add: s_def bitLength.simps [of 0])
    from True have bl: "bitLength (M * N) - 1 = 53 + (s - 1)"
      by (simp add: s_def)
    have "2 ^ 53 * 2 ^ (s - 1) = (2::nat) ^ (bitLength (M * N) - 1)"
      by (simp only: bl power_add)
    also have "\<dots> \<le> M * N"
      using bitLength_bounds [OF pos] by simp
    also have "\<dots> < 2 ^ 53 * N"
      using M(2) N by simp
    finally have half: "2 ^ (s - 1) < N"
      by simp
    have two: "(2::nat) ^ s = 2 * 2 ^ (s - 1)"
      using True by (cases s) simp_all
    have "R * 2 ^ s \<le> M * N + 2 ^ (s - 1)"
    proof (cases "r > 2 ^ (s - 1) \<or> (r = 2 ^ (s - 1) \<and> odd q)")
      case True
      then have "2 ^ (s - 1) \<le> r" by auto
      moreover from True \<open>s > 0\<close> have "R = q + 1" by (simp add: R_def)
      ultimately show ?thesis
        using split two by (simp add: algebra_simps)
    next
      case False
      then have "R = q" by (simp add: R_def)
      then show ?thesis using split by simp
    qed
    also have "\<dots> < M * N + N" using half by simp
    also have "\<dots> \<le> N * 2 ^ E" by (rule top)
    finally show ?thesis .
  qed
qed

lemma jsFloor_jsMultiply_bounds:
  assumes u: "unitDouble d" and n: "1 \<le> n"
  shows "0 \<le> jsFloor (jsMultiply d n)" and "jsFloor (jsMultiply d n) < n"
proof -
  define M N where "M = nat (mantissa d)" and "N = nat n"
  have m: "mantissa d = int M" and nn: "n = int N" and N1: "1 \<le> N"
    using u n by (simp_all add: unitDouble_def M_def N_def)
  define s where "s = bitLength (M * N) - 53"
  define q r where "q = (M * N) div 2 ^ s" and "r = (M * N) mod 2 ^ s"
  define R where "R = (if s > 0 \<and> (r > 2 ^ (s - 1) \<or> (r = 2 ^ (s - 1) \<and> odd q)) then q + 1 else q)"
  have abs: "nat \<bar>mantissa d * n\<bar> = M * N"
    by (simp add: m nn nat_mult_distrib abs_mult)
  have both: "0 \<le> jsFloor (jsMultiply d n) \<and> jsFloor (jsMultiply d n) < n"
  proof (cases "M = 0")
    case True
    then have "jsMultiply d n = \<lparr> mantissa = 0, exponent = exponent d + int (bitLength 0 - 53) \<rparr>"
      by (simp add: jsMultiply_def roundToDouble_def m Let_def)
    then have z: "jsFloor (jsMultiply d n) = 0"
      by (simp add: jsFloor_def)
    show ?thesis using n by (simp add: z)
  next
    case False
    then have Mpos: "0 < M" by simp
    from u have i1: "int M < 2 ^ 53"
      and i2: "int M = 0 \<or> (exponent d < 0 \<and> int M < 2 ^ nat (- exponent d))"
      by (simp_all add: unitDouble_def m [symmetric])
    from i1 have M53: "M < 2 ^ 53" by simp
    from i2 Mpos have e: "exponent d < 0" and "int M < 2 ^ nat (- exponent d)"
      by simp_all
    then have Mlt: "M < 2 ^ nat (- exponent d)" by simp
    define E where "E = nat (- exponent d)"
    have ex: "exponent d = - int E" using e by (simp add: E_def)
    have sg: "sgn (mantissa d * n) = 1"
      using Mpos N1 by (simp add: m nn sgn_mult)
    have res: "jsMultiply d n = \<lparr> mantissa = int R, exponent = int s - int E \<rparr>"
      by (simp add: jsMultiply_def roundToDouble_def Let_def abs sg R_def q_def r_def s_def ex)
    have key: "R * 2 ^ s < N * 2 ^ E"
      unfolding R_def q_def r_def s_def
      by (rule round_key [OF Mlt [folded E_def] M53 N1])
    have lo: "0 \<le> jsFloor (jsMultiply d n)"
      by (simp add: res jsFloor_def pos_imp_zdiv_nonneg_iff)
    have "jsFloor (jsMultiply d n) < n"
    proof (cases "E \<le> s")
      case True
      then have "2 ^ s = (2::nat) ^ (s - E) * 2 ^ E"
        by (simp add: power_add [symmetric])
      with key have "R * 2 ^ (s - E) * 2 ^ E < N * 2 ^ E"
        by (simp add: mult.assoc)
      then have "R * 2 ^ (s - E) < N" by simp
      then have "int R * 2 ^ (s - E) < int N"
        by (metis of_nat_less_iff of_nat_mult of_nat_numeral of_nat_power)
      moreover from True have "nat (int s - int E) = s - E" by simp
      with True have "jsFloor (jsMultiply d n) = int R * 2 ^ (s - E)"
        by (simp add: res jsFloor_def)
      ultimately show ?thesis
        by (simp only: nn)
    next
      case False
      then have "2 ^ E = (2::nat) ^ (E - s) * 2 ^ s"
        by (simp add: power_add [symmetric])
      with key have "R * 2 ^ s < N * 2 ^ (E - s) * 2 ^ s"
        by (simp add: mult.assoc)
      then have "R < N * 2 ^ (E - s)" by simp
      then have "R div 2 ^ (E - s) < N"
        by (simp add: less_mult_imp_div_less)
      then have "int R div 2 ^ (E - s) < int N"
        by (metis of_nat_less_iff of_nat_numeral of_nat_power zdiv_int)
      moreover from False have "nat (int E - int s) = E - s" by simp
      with False have "jsFloor (jsMultiply d n) = int R div 2 ^ (E - s)"
        by (simp add: res jsFloor_def)
      ultimately show ?thesis
        by (simp only: nn)
    qed
    with lo show ?thesis ..
  qed
  from both show "0 \<le> jsFloor (jsMultiply d n)" and "jsFloor (jsMultiply d n) < n"
    by simp_all
qed

lemma bitLength_eval:
  "bitLength 0 = 0"
  "bitLength (Suc 0) = Suc 0"
  "bitLength (numeral k) = Suc (bitLength (numeral k div 2))"
  by (simp_all add: bitLength.simps [of 0] bitLength.simps [of "Suc 0"]
      bitLength.simps [of "numeral k"])

lemmas double_eval = jsFloor_def jsMultiply_def roundToDouble_def Let_def bitLength_eval

text \<open>
  Three products: one that is exact, and two that the rounding moves up to the next
  integer, where the floor of the exact product would be one less.
\<close>

lemma jsFloor_exact_product:
  "jsFloor (jsMultiply \<lparr> mantissa = 1, exponent = - 1 \<rparr> 7001) = 3500"
  by (simp add: double_eval)

lemma jsFloor_rounded_product:
  "jsFloor (jsMultiply \<lparr> mantissa = 2644521935169277, exponent = - 52 \<rparr> 7001) = 4111"
  "\<lfloor>(2644521935169277 / 2 ^ 52 :: real) * 7001\<rfloor> = 4110"
  "jsFloor (jsMultiply \<lparr> mantissa = 6004799503160661, exponent = - 54 \<rparr> 3) = 1"
  "\<lfloor>(6004799503160661 / 2 ^ 54 :: real) * 3\<rfloor> = 0"
  by (simp_all add: double_eval)

section \<open>Properties of the dispatch loop\<close>

lemma withoutSendText_append [simp]:
  "withoutSendText (xs @ ys) = withoutSendText xs @ withoutSendText ys"
  by (simp add: withoutSendText_def)

lemma withoutSendText_simps [simp]:
  "withoutSendText [] = []"
  "withoutSendText (Attempt k # es) = Attempt k # withoutSendText es"
  "withoutSendText (Delay ms # es) = Delay ms # withoutSendText es"
  "withoutSendText (CheckNumberStatus n # es) = CheckNumberStatus n # withoutSendText es"
  "withoutSendText (SendText n m # es) = withoutSendText es"
  by (simp_all add: withoutSendText_def)

lemma getRandomTemplate_frame:
  "tracker (snd (getRandomTemplate env w)) = tracker w"
  "clock (snd (getRandomTemplate env w)) = clock w"
  "calls (snd (getRandomTemplate env w)) = calls w"
  "events (snd (getRandomTemplate env w)) = events w"
  "draws (snd (getRandomTemplate env w)) = Suc (draws w)"
  by (simp_all add: getRandomTemplate_def Let_def)

lemma getRandomTemplate_defined:
  assumes "unitDouble (random env (draws w))"
  shows "\<exists>t. fst (getRandomTemplate env w) = Some t"
proof (cases "messageTemplates env = []")
  case True
  from jsFloor_jsMultiply_bounds [OF assms, of 1] show ?thesis
    by (simp add: getRandomTemplate_def Let_def True)
next
  case False
  then have "1 \<le> int (length (messageTemplates env))"
    by (cases "messageTemplates env") simp_all
  from jsFloor_jsMultiply_bounds [OF assms this] False show ?thesis
    by (simp add: getRandomTemplate_def Let_def)
qed

lemma callClient_frame:
  "tracker (snd (callClient env c attempt message w)) = tracker w"
  "clock (snd (callClient env c attempt message w)) = clock w"
  "calls (snd (callClient env c attempt message w)) = Suc (calls w)"
  "draws (snd (callClient env c attempt message w)) = draws w"
  "withoutSendText (events (snd (callClient env c attempt message w))) =
     withoutSendText (events w) @ [CheckNumberStatus (formatWhatsAppNumber (formattedPhone c))]"
  by (simp_all add: callClient_def Let_def split: sum.split option.split)

lemma callClient_checks:
  "length (filter isCheckNumberStatus (events (snd (callClient env c attempt message w)))) =
     Suc (length (filter isCheckNumberStatus (events w)))"
  by (simp add: callClient_def Let_def split: sum.split option.split)

lemma callClient_sends:
  "length (filter isSendText (events (snd (callClient env c attempt message w)))) =
     length (filter isSendText (events w)) +
       (if numberExistsAt env (formatWhatsAppNumber (formattedPhone c)) (calls w) then 1 else 0)"
  by (simp add: callClient_def Let_def numberExistsAt_def split: sum.split option.split)

lemma callClient_transient:
  assumes "transientAt env (calls w) (formatWhatsAppNumber (formattedPhone c))"
  shows "\<exists>e. fst (callClient env c attempt message w) = Thrown e"
proof (cases "checkNumberStatus env (calls w) (formatWhatsAppNumber (formattedPhone c))")
  case (Inl e)
  then show ?thesis by (simp add: callClient_def Let_def)
next
  case (Inr numberExists)
  with assms have ex: "numberExists"
    and "sendText env (calls w) (formatWhatsAppNumber (formattedPhone c)) message \<noteq> None"
    by (simp_all add: transientAt_def)
  then obtain e where
    "sendText env (calls w) (formatWhatsAppNumber (formattedPhone c)) message = Some e"
    by blast
  with Inr ex show ?thesis by (simp add: callClient_def Let_def)
qed

lemma tryAttempt_frame:
  "tracker (snd (tryAttempt env c attempt w)) = tracker w"
  "clock (snd (tryAttempt env c attempt w)) = clock w"
  by (simp_all add: tryAttempt_def case_prod_beta callClient_frame getRandomTemplate_frame
      split: option.split)

text \<open>
  When the draw is a double in \<open>[0, 1)\<close> a template is selected, so the attempt reaches
  the client: it calls \<open>checkNumberStatus\<close> once, and \<open>sendText\<close> once if the number is
  reported as registered.
\<close>

lemma tryAttempt_calls:
  assumes "unitDouble (random env (draws w))"
  shows "withoutSendText (events (snd (tryAttempt env c attempt w))) =
           withoutSendText (events w) @
             [Attempt attempt, CheckNumberStatus (formatWhatsAppNumber (formattedPhone c))]"
    and "length (filter isCheckNumberStatus (events (snd (tryAttempt env c attempt w)))) =
           Suc (length (filter isCheckNumberStatus (events w)))"
    and "length (filter isSendText (events (snd (tryAttempt env c attempt w)))) =
           length (filter isSendText (events w)) +
             (if numberExistsAt env (formatWhatsAppNumber (formattedPhone c)) (calls w) then 1 else 0)"
    and "calls (snd (tryAttempt env c attempt w)) = Suc (calls w)"
    and "draws (snd (tryAttempt env c attempt w)) = Suc (draws w)"
proof -
  let ?w = "w\<lparr> events := events w @ [Attempt attempt] \<rparr>"
  from getRandomTemplate_defined [of env ?w] assms
  obtain t where t: "fst (getRandomTemplate env ?w) = Some t"
    by auto
  have eq: "tryAttempt env c attempt w =
      callClient env c attempt (substitute env t c) (snd (getRandomTemplate env ?w))"
    using t by (simp add: tryAttempt_def case_prod_beta)
  show "withoutSendText (events (snd (tryAttempt env c attempt w))) =
           withoutSendText (events w) @
             [Attempt attempt, CheckNumberStatus (formatWhatsAppNumber (formattedPhone c))]"
    by (simp add: eq callClient_frame getRandomTemplate_frame)
  show "length (filter isCheckNumberStatus (events (snd (tryAttempt env c attempt w)))) =
           Suc (length (filter isCheckNumberStatus (events w)))"
    by (simp add: eq callClient_checks getRandomTemplate_frame)
  show "length (filter isSendText (events (snd (tryAttempt env c attempt w)))) =
           length (filter isSendText (events w)) +
             (if numberExistsAt env (formatWhatsAppNumber (formattedPhone c)) (calls w) then 1 else 0)"
    by (simp add: eq callClient_sends getRandomTemplate_frame)
  show "calls (snd (tryAttempt env c attempt w)) = Suc (calls w)"
    by (simp add: eq callClient_frame getRandomTemplate_frame)
  show "draws (snd (tryAttempt env c attempt w)) = Suc (draws w)"
    by (simp add: eq callClient_frame getRandomTemplate_frame)
qed

lemma tryAttempt_transient:
  assumes "\<forall>k. transientAt env k (formatWhatsAppNumber (formattedPhone c))"
  shows "\<exists>e. fst (tryAttempt env c attempt w) = Thrown e"
  using assms callClient_transient
  by (simp add: tryAttempt_def case_prod_beta split: option.split)

lemma attemptSchedule_step:
  "a < m \<Longrightarrow>
   attemptSchedule rd n a m =
     Attempt a # CheckNumberStatus n # Delay rd # attemptSchedule rd n (Suc a) m"
  by (simp add: attemptSchedule_def upt_conv_Cons)

lemma attemptSchedule_last: "attemptSchedule rd n m m = [Attempt m, CheckNumberStatus n]"
  by (simp add: attemptSchedule_def)

lemma retryLoop_frame:
  "tracker (snd (retryLoop env c attempt lastError w)) = tracker w"
proof (induction env c attempt lastError w rule: retryLoop.induct)
  case (1 env c attempt lastError w)
  show ?case
  proof (cases "attempt \<le> maxRetries (cfg env)")
    case False
    then show ?thesis by (simp add: retryLoop.simps)
  next
    case True
    obtain out w' where t: "tryAttempt env c attempt w = (out, w')"
      by (cases "tryAttempt env c attempt w")
    have fr: "tracker w' = tracker w"
      using tryAttempt_frame(1) [of env c attempt w] t by simp
    show ?thesis
    proof (cases out)
      case (Returned r)
      with True t fr show ?thesis by (simp add: retryLoop.simps [of env c attempt])
    next
      case (Thrown e)
      with True t fr "1.IH" [OF True t [symmetric] Thrown]
      show ?thesis by (simp add: retryLoop.simps [of env c attempt] delay_def)
    qed
  qed
qed

lemma retryLoop_exhausted:
  "maxRetries (cfg env) < attempt \<Longrightarrow>
   retryLoop env c attempt lastError w =
     (\<lparr> customer = c, success = False, timestamp = clock w, error = Some lastError,
        retryCount = maxRetries (cfg env) \<rparr>, w)"
  by (simp add: retryLoop.simps)

text \<open>
  The retry loop when every attempt throws, from the attempt number \<open>attempt\<close> on: the
  events without the \<open>sendText\<close> calls follow the schedule, every attempt calls
  \<open>checkNumberStatus\<close>, \<open>sendText\<close> is called in the attempts whose check reports the
  number as registered, and the clock advances by the retry delays.
\<close>

lemma filter_upt_first:
  "a < b \<Longrightarrow> length (filter P [a ..< b]) = (if P a then 1 else 0) + length (filter P [Suc a ..< b])"
  by (simp add: upt_conv_Cons)

lemma retryLoop_transient:
  assumes tr: "\<forall>k. transientAt env k (formatWhatsAppNumber (formattedPhone c))"
    and ud: "\<forall>n. unitDouble (random env n)"
    and le: "attempt \<le> maxRetries (cfg env)"
  shows "withoutSendText (events (snd (retryLoop env c attempt lastError w))) =
           withoutSendText (events w) @
             attemptSchedule (retryDelay (cfg env)) (formatWhatsAppNumber (formattedPhone c))
               attempt (maxRetries (cfg env)) \<and>
         length (filter isCheckNumberStatus (events (snd (retryLoop env c attempt lastError w)))) =
           length (filter isCheckNumberStatus (events w)) + (Suc (maxRetries (cfg env)) - attempt) \<and>
         length (filter isSendText (events (snd (retryLoop env c attempt lastError w)))) =
           length (filter isSendText (events w)) +
             length (filter (numberExistsAt env (formatWhatsAppNumber (formattedPhone c)))
                       [calls w ..< calls w + (Suc (maxRetries (cfg env)) - attempt)]) \<and>
         calls (snd (retryLoop env c attempt lastError w)) =
           calls w + (Suc (maxRetries (cfg env)) - attempt) \<and>
         clock (snd (retryLoop env c attempt lastError w)) =
           clock w + int (maxRetries (cfg env) - attempt) * max 0 (retryDelay (cfg env)) \<and>
         customer (fst (retryLoop env c attempt lastError w)) = c \<and>
         \<not> success (fst (retryLoop env c attempt lastError w)) \<and>
         retryCount (fst (retryLoop env c attempt lastError w)) = maxRetries (cfg env)"
  using tr ud le
proof (induction env c attempt lastError w rule: retryLoop.induct)
  case (1 env c attempt lastError w)
  note tr = "1.prems"(1) and ud = "1.prems"(2) and le = "1.prems"(3)
  let ?n = "formatWhatsAppNumber (formattedPhone c)"
  let ?max = "maxRetries (cfg env)"
  obtain out w' where t: "tryAttempt env c attempt w = (out, w')"
    by (cases "tryAttempt env c attempt w")
  obtain e where out: "out = Thrown e"
    using tryAttempt_transient [OF tr, of attempt w] t by auto
  have u: "unitDouble (random env (draws w))"
    using ud by simp
  have ev: "withoutSendText (events w') =
      withoutSendText (events w) @ [Attempt attempt, CheckNumberStatus ?n]"
    using tryAttempt_calls(1) [OF u, of c attempt] t by simp
  have ck: "length (filter isCheckNumberStatus (events w')) =
      Suc (length (filter isCheckNumberStatus (events w)))"
    using tryAttempt_calls(2) [OF u, of c attempt] t by simp
  have st: "length (filter isSendText (events w')) =
      length (filter isSendText (events w)) + (if numberExistsAt env ?n (calls w) then 1 else 0)"
    using tryAttempt_calls(3) [OF u, of c attempt] t by simp
  have ca: "calls w' = Suc (calls w)"
    using tryAttempt_calls(4) [OF u, of c attempt] t by simp
  have cl: "clock w' = clock w"
    using tryAttempt_frame(2) [of env c attempt w] t by simp
  let ?w = "if attempt < ?max then delay (retryDelay (cfg env)) w' else w'"
  have unfold: "retryLoop env c attempt lastError w = retryLoop env c (attempt + 1) (lastErrorOf e) ?w"
    using le t out by (simp add: retryLoop.simps [of env c attempt])
  show ?case
  proof (cases "attempt < ?max")
    case True
    then have le': "attempt + 1 \<le> ?max" by simp
    let ?d = "delay (retryDelay (cfg env)) w'"
    have w: "?w = ?d"
      using True by simp
    have R: "retryLoop env c attempt lastError w = retryLoop env c (attempt + 1) (lastErrorOf e) ?d"
      by (simp only: unfold w)
    define k where "k = Suc ?max - (attempt + 1)"
    define j where "j = ?max - (attempt + 1)"
    have k: "Suc ?max - attempt = Suc k" and j: "?max - attempt = Suc j"
      using True by (simp_all add: k_def j_def)
    note ih = "1.IH" [OF le t [symmetric] out tr ud le', unfolded w, folded k_def j_def]
    have d: "events ?d = events w' @ [Delay (retryDelay (cfg env))]" "calls ?d = calls w'"
      "clock ?d = clock w' + max 0 (retryDelay (cfg env))"
      by (simp_all add: delay_def)
    have c1: "withoutSendText (events (snd (retryLoop env c attempt lastError w))) =
        withoutSendText (events w) @ attemptSchedule (retryDelay (cfg env)) ?n attempt ?max"
      unfolding R using ih True by (simp add: d ev attemptSchedule_step)
    have c2: "length (filter isCheckNumberStatus (events (snd (retryLoop env c attempt lastError w)))) =
        length (filter isCheckNumberStatus (events w)) + (Suc ?max - attempt)"
      unfolding R k using ih by (simp add: d ck)
    have "length (filter (numberExistsAt env ?n) [calls w ..< calls w + Suc k]) =
        (if numberExistsAt env ?n (calls w) then 1 else 0) +
        length (filter (numberExistsAt env ?n) [Suc (calls w) ..< Suc (calls w) + k])"
      by (subst filter_upt_first) simp_all
    then have c3: "length (filter isSendText (events (snd (retryLoop env c attempt lastError w)))) =
        length (filter isSendText (events w)) +
          length (filter (numberExistsAt env ?n) [calls w ..< calls w + (Suc ?max - attempt)])"
      unfolding R k using ih by (simp add: d st ca del: upt_Suc)
    have c4: "calls (snd (retryLoop env c attempt lastError w)) = calls w + (Suc ?max - attempt)"
      unfolding R k using ih by (simp add: d ca)
    have c5: "clock (snd (retryLoop env c attempt lastError w)) =
        clock w + int (?max - attempt) * max 0 (retryDelay (cfg env))"
      unfolding R j using ih by (simp add: d cl algebra_simps)
    have c6: "customer (fst (retryLoop env c attempt lastError w)) = c"
      "\<not> success (fst (retryLoop env c attempt lastError w))"
      "retryCount (fst (retryLoop env c attempt lastError w)) = ?max"
      unfolding R using ih by simp_all
    from c1 c2 c3 c4 c5 c6 show ?thesis
      by (intro conjI)
  next
    case False
    with le have eq: "attempt = ?max" by simp
    have "retryLoop env c attempt lastError w = retryLoop env c (attempt + 1) (lastErrorOf e) w'"
      using unfold False by simp
    also have "\<dots> = (\<lparr> customer = c, success = False, timestamp = clock w',
                         error = Some (lastErrorOf e), retryCount = ?max \<rparr>, w')"
      by (rule retryLoop_exhausted) (simp add: eq)
    finally have res: "retryLoop env c attempt lastError w =
        (\<lparr> customer = c, success = False, timestamp = clock w', error = Some (lastErrorOf e),
           retryCount = ?max \<rparr>, w')" .
    show ?thesis
      unfolding res using ev ck st ca cl by (simp add: eq attemptSchedule_last)
  qed
qed


lemma getRandomDelay_frame:
  "tracker (snd (getRandomDelay env b w)) = tracker w"
  "clock (snd (getRandomDelay env b w)) = clock w"
  "events (snd (getRandomDelay env b w)) = events w"
  by (simp_all add: getRandomDelay_def Let_def)

lemma recordResult_fields:
  "delays (recordResult r d t) = delays t @ [d]"
  "messageResults (recordResult r d t) = messageResults t @ [r]"
  "currentBatch (state (recordResult r d t)) = currentBatch (state t)"
  "successfulSends (state (recordResult r d t)) = successfulSends (state t) + (if success r then 1 else 0)"
  "failedSends (state (recordResult r d t)) = failedSends (state t) + (if success r then 0 else 1)"
  "skippedCustomers (state (recordResult r d t)) = skippedCustomers (state t)"
  "processedCustomers (state (recordResult r d t)) = processedCustomers (state t) + 1"
  by (simp_all add: recordResult_def saveProgress_frame Let_def)

lemma incrementBatch_fields:
  "delays (incrementBatch t) = delays t"
  "messageResults (incrementBatch t) = messageResults t"
  "currentBatch (state (incrementBatch t)) = currentBatch (state t) + 1"
  "successfulSends (state (incrementBatch t)) = successfulSends (state t)"
  "failedSends (state (incrementBatch t)) = failedSends (state t)"
  "skippedCustomers (state (incrementBatch t)) = skippedCustomers (state t)"
  "processedCustomers (state (incrementBatch t)) = processedCustomers (state t)"
  by (simp_all add: incrementBatch_def)

lemma sendMessageWithRetry_tracker:
  "tracker (snd (sendMessageWithRetry env c b w)) = tracker w"
  by (simp add: sendMessageWithRetry_def retryLoop_frame)

lemma iteration_tracker:
  "tracker (iteration env i c w) =
     (let t = recordResult (fst (sendMessageWithRetry env c (i < 5) w)) (computedDelay env i c w) (tracker w)
      in if shouldTakeBatchBreak (cfg env) (int i + 1) then incrementBatch t else t)"
  by (simp add: iteration_def computedDelay_def case_prod_beta Let_def delay_def
      getRandomDelay_frame sendMessageWithRetry_tracker)

lemma iteration_events:
  "events (iteration env i c w) =
     events (snd (sendMessageWithRetry env c (i < 5) w)) @
       [Delay (if shouldTakeBatchBreak (cfg env) (int i + 1) then delayBetweenBatches (cfg env)
               else computedDelay env i c w)]"
  by (simp add: iteration_def computedDelay_def case_prod_beta Let_def delay_def
      getRandomDelay_frame)

lemma iteration_clock:
  "clock (iteration env i c w) =
     clock (snd (sendMessageWithRetry env c (i < 5) w)) +
       max 0 (if shouldTakeBatchBreak (cfg env) (int i + 1) then delayBetweenBatches (cfg env)
              else computedDelay env i c w)"
  by (simp add: iteration_def computedDelay_def case_prod_beta Let_def delay_def
      getRandomDelay_frame)

lemma iteration_delays:
  "delays (tracker (iteration env i c w)) = delays (tracker w) @ [computedDelay env i c w]"
  by (simp add: iteration_tracker Let_def recordResult_fields incrementBatch_fields)

lemma iteration_results:
  "messageResults (tracker (iteration env i c w)) =
     messageResults (tracker w) @ [fst (sendMessageWithRetry env c (i < 5) w)]"
  by (simp add: iteration_tracker Let_def recordResult_fields incrementBatch_fields)

lemma iteration_counts:
  "successfulSends (state (tracker (iteration env i c w))) =
     successfulSends (state (tracker w)) +
       (if success (fst (sendMessageWithRetry env c (i < 5) w)) then 1 else 0)"
  "failedSends (state (tracker (iteration env i c w))) =
     failedSends (state (tracker w)) +
       (if success (fst (sendMessageWithRetry env c (i < 5) w)) then 0 else 1)"
  "skippedCustomers (state (tracker (iteration env i c w))) = skippedCustomers (state (tracker w))"
  "processedCustomers (state (tracker (iteration env i c w))) =
     processedCustomers (state (tracker w)) + 1"
  by (simp_all add: iteration_tracker Let_def recordResult_fields incrementBatch_fields)

text \<open>
  The loop over a list of recipients is the loop over a first part followed by the loop
  over the rest, with the index moved on: when a shutdown stops the first loop, the
  second finds the same clock and stops at once. So the run over the recipients up to
  index \<open>i\<close> is the pass for the recipient at index \<open>i\<close>, with the loop index \<open>i\<close>,
  after the run over the recipients before it, and the whole run goes through it.
\<close>

lemma sendLoop_stopped: "isShuttingDown env (clock w) \<Longrightarrow> sendLoop env i cs w = w"
  by (cases cs) simp_all

lemma sendLoop_append:
  "sendLoop env i (xs @ ys) w = sendLoop env (i + length xs) ys (sendLoop env i xs w)"
  by (induction xs arbitrary: i w) (simp_all add: sendLoop_stopped)

lemma runBefore_Suc:
  assumes "reaches env cs w i"
  shows "runBefore env cs w (Suc i) = iteration env i (cs ! i) (runBefore env cs w i)"
proof -
  from assms have i: "i < length cs"
    and go: "\<not> isShuttingDown env (clock (sendLoop env 0 (take i cs) w))"
    by (simp_all add: reaches_def runBefore_def sendMessagesToCustomers_def)
  from i have "take (Suc i) cs = take i cs @ [cs ! i]"
    by (rule take_Suc_conv_app_nth)
  then have "sendLoop env 0 (take (Suc i) cs) w =
      sendLoop env (0 + length (take i cs)) [cs ! i] (sendLoop env 0 (take i cs) w)"
    by (simp only: sendLoop_append)
  also have "0 + length (take i cs) = i"
    using i by simp
  finally show ?thesis
    using go by (simp add: runBefore_def sendMessagesToCustomers_def)
qed

lemma run_through:
  assumes "i \<le> length cs"
  shows "sendMessagesToCustomers env cs w = sendLoop env i (drop i cs) (runBefore env cs w i)"
proof -
  have "sendLoop env 0 (take i cs @ drop i cs) w =
      sendLoop env (0 + length (take i cs)) (drop i cs) (sendLoop env 0 (take i cs) w)"
    by (rule sendLoop_append)
  moreover have "0 + length (take i cs) = i"
    using assms by simp
  ultimately show ?thesis
    by (simp add: runBefore_def sendMessagesToCustomers_def)
qed

lemma getRandomDelay_range:
  assumes r: "unitDouble (random env (draws w))"
    and mm: "delayBetweenMessages_min (cfg env) \<le> delayBetweenMessages_max (cfg env)"
  shows "delayBetweenMessages_min (cfg env) \<le> fst (getRandomDelay env False w)"
    and "fst (getRandomDelay env False w) \<le> delayBetweenMessages_max (cfg env)"
proof -
  let ?n = "delayBetweenMessages_max (cfg env) - delayBetweenMessages_min (cfg env) + 1"
  have n: "1 \<le> ?n" using mm by simp
  note b = jsFloor_jsMultiply_bounds [OF r n]
  show "delayBetweenMessages_min (cfg env) \<le> fst (getRandomDelay env False w)"
    using b(1) by (simp add: getRandomDelay_def Let_def)
  show "fst (getRandomDelay env False w) \<le> delayBetweenMessages_max (cfg env)"
    using b(2) by (simp add: getRandomDelay_def Let_def)
qed

lemma computedDelay_warmup: "i < 5 \<Longrightarrow> computedDelay env i c w = initialWarmupDelay (cfg env)"
  by (simp add: computedDelay_def getRandomDelay_def)

text \<open>The runs of the examples: a client that delivers every message.\<close>

lemma sample_fields:
  "cfg (sampleEnv c check send) = c"
  "isShuttingDown (sampleEnv c check send) t = False"
  "random (sampleEnv c check send) n = \<lparr> mantissa = 1, exponent = - 1 \<rparr>"
  by (simp_all add: sampleEnv_def)

lemma sample_unitDouble: "unitDouble (random (sampleEnv c check send) n)"
  by (simp add: sample_fields unitDouble_def)

lemma deliveringWith_send:
  "sendMessageWithRetry (deliveringWith c) cu b w =
     (\<lparr> customer = cu, success = True, timestamp = clock w, error = None, retryCount = 0 \<rparr>,
      w\<lparr> draws := draws w + 1, calls := calls w + 1,
         events := events w @ [Attempt 0,
           CheckNumberStatus (formatWhatsAppNumber (formattedPhone cu)),
           SendText (formatWhatsAppNumber (formattedPhone cu)) ''Hello''] \<rparr>)"
  by (simp add: sendMessageWithRetry_def retryLoop.simps [of _ _ 0] tryAttempt_def
      callClient_def getRandomTemplate_def deliveringWith_def sampleEnv_def double_eval)

lemma deliveringWith_computedDelay:
  "computedDelay (deliveringWith c) i cu w =
     (if i < 5 then initialWarmupDelay c
      else jsFloor (jsMultiply \<lparr> mantissa = 1, exponent = - 1 \<rparr>
             (delayBetweenMessages_max c - delayBetweenMessages_min c + 1)) +
           delayBetweenMessages_min c)"
  by (simp add: computedDelay_def getRandomDelay_def deliveringWith_def sample_fields Let_def)

lemma deliveringWith_iteration:
  "events (iteration (deliveringWith c) i cu w) =
     events w @ [Attempt 0, CheckNumberStatus (formatWhatsAppNumber (formattedPhone cu)),
                 SendText (formatWhatsAppNumber (formattedPhone cu)) ''Hello'',
                 Delay (if shouldTakeBatchBreak c (int i + 1) then delayBetweenBatches c
                        else computedDelay (deliveringWith c) i cu w)]"
  "clock (iteration (deliveringWith c) i cu w) =
     clock w + max 0 (if shouldTakeBatchBreak c (int i + 1) then delayBetweenBatches c
                      else computedDelay (deliveringWith c) i cu w)"
  "messageResults (tracker (iteration (deliveringWith c) i cu w)) =
     messageResults (tracker w) @
       [\<lparr> customer = cu, success = True, timestamp = clock w, error = None, retryCount = 0 \<rparr>]"
  "successfulSends (state (tracker (iteration (deliveringWith c) i cu w))) =
     successfulSends (state (tracker w)) + 1"
  "failedSends (state (tracker (iteration (deliveringWith c) i cu w))) =
     failedSends (state (tracker w))"
  "skippedCustomers (state (tracker (iteration (deliveringWith c) i cu w))) =
     skippedCustomers (state (tracker w))"
  "currentBatch (state (tracker (iteration (deliveringWith c) i cu w))) =
     currentBatch (state (tracker w)) + (if shouldTakeBatchBreak c (int i + 1) then 1 else 0)"
        apply (simp add: iteration_events deliveringWith_send)
        apply (simp add: deliveringWith_def sample_fields)
       apply (simp add: iteration_clock deliveringWith_send)
       apply (simp add: deliveringWith_def sample_fields)
      apply (simp add: iteration_results deliveringWith_send)
     apply (simp add: iteration_counts deliveringWith_send)
    apply (simp add: iteration_counts deliveringWith_send)
   apply (simp add: iteration_counts)
  apply (simp add: iteration_tracker Let_def recordResult_fields incrementBatch_fields)
  apply (simp add: deliveringWith_def sample_fields)
  done

lemma deliveringWith_go: "isShuttingDown (deliveringWith c) t = False"
  by (simp add: deliveringWith_def sample_fields)

lemma newWorld_fields:
  "events (newWorld b) = []"
  "clock (newWorld b) = 0"
  "calls (newWorld b) = 0"
  "draws (newWorld b) = 0"
  "messageResults (tracker (newWorld b)) = []"
  "delays (tracker (newWorld b)) = []"
  "processedCustomers (state (tracker (newWorld b))) = 0"
  "successfulSends (state (tracker (newWorld b))) = 0"
  "failedSends (state (tracker (newWorld b))) = 0"
  "skippedCustomers (state (tracker (newWorld b))) = 0"
  "currentBatch (state (tracker (newWorld b))) = 0"
  by (simp_all add: newWorld_def newProgressTracker_def)

lemma sample_phones:
  "formattedPhone sampleCustomer = ''201027056703''"
  "formattedPhone sharedPhoneCustomer = ''201027056703''"
  by (simp_all add: sampleCustomer_def sharedPhoneCustomer_def)

lemma deliveringWith_cfg: "cfg (deliveringWith c) = c"
  by (simp add: deliveringWith_def sample_fields)

lemma config_fields:
  "delayBetweenMessages_min config = 5000"
  "delayBetweenMessages_max config = 12000"
  "batchSize config = 20"
  "delayBetweenBatches config = 120000"
  "initialWarmupDelay config = 15000"
  "retryDelay config = 30000"
  "maxRetries config = 3"
  by (simp_all add: config_def)

lemma deliveringEnv_eq: "deliveringEnv = deliveringWith config"
  by (simp add: deliveringEnv_def deliveringWith_def)

text \<open>
  Claim C5. Let the run over the recipients \<open>cs\<close> reach index \<open>i\<close>, and let the batch size
  \<open>B\<close> be positive. The run goes on from the world that the pass for the recipient at
  index \<open>i\<close> leaves, and what that pass adds to the events of its send is exactly one
  call of \<open>delay\<close>: with \<open>delayBetweenBatches\<close> when \<open>(i + 1) mod B = 0\<close>, whatever
  \<open>getRandomDelay\<close> computed (warmup or random), and with the computed delay otherwise.
  The batch counter goes up by one in the first case and stays in the second; so the
  pass is the batch break with the counter incremented if and only if
  \<open>(i + 1) mod B = 0\<close>.
\<close>

theorem batch_break_overrides_delay:
  assumes "0 < batchSize (cfg env)" and "reaches env cs w i"
  defines "pre \<equiv> runBefore env cs w i"
  defines "post \<equiv> runBefore env cs w (Suc i)"
  defines "sent \<equiv> snd (sendMessageWithRetry env (cs ! i) (i < 5) pre)"
  shows "sendMessagesToCustomers env cs w = sendLoop env (Suc i) (drop (Suc i) cs) post \<and>
         events post =
           events sent @
             [Delay (if (int i + 1) mod batchSize (cfg env) = 0 then delayBetweenBatches (cfg env)
                     else computedDelay env i (cs ! i) pre)] \<and>
         currentBatch (state (tracker post)) =
           currentBatch (state (tracker pre)) +
             (if (int i + 1) mod batchSize (cfg env) = 0 then 1 else 0) \<and>
         ((events post = events sent @ [Delay (delayBetweenBatches (cfg env))] \<and>
           currentBatch (state (tracker post)) = currentBatch (state (tracker pre)) + 1)
          \<longleftrightarrow> (int i + 1) mod batchSize (cfg env) = 0)"
proof -
  have sb: "shouldTakeBatchBreak (cfg env) (int i + 1) \<longleftrightarrow> (int i + 1) mod batchSize (cfg env) = 0"
    using assms(1) by (simp add: shouldTakeBatchBreak_def)
  have step: "post = iteration env i (cs ! i) pre"
    unfolding post_def pre_def using assms(2) by (rule runBefore_Suc)
  from assms(2) have "Suc i \<le> length cs"
    by (simp add: reaches_def)
  then have through: "sendMessagesToCustomers env cs w = sendLoop env (Suc i) (drop (Suc i) cs) post"
    unfolding post_def by (rule run_through)
  have ev: "events post =
      events sent @
        [Delay (if (int i + 1) mod batchSize (cfg env) = 0 then delayBetweenBatches (cfg env)
                else computedDelay env i (cs ! i) pre)]"
    by (simp add: step sent_def iteration_events sb)
  have cb: "currentBatch (state (tracker post)) =
      currentBatch (state (tracker pre)) +
        (if (int i + 1) mod batchSize (cfg env) = 0 then 1 else 0)"
    by (simp add: step iteration_tracker sb Let_def recordResult_fields incrementBatch_fields)
  have iff: "(events post = events sent @ [Delay (delayBetweenBatches (cfg env))] \<and>
      currentBatch (state (tracker post)) = currentBatch (state (tracker pre)) + 1)
      \<longleftrightarrow> (int i + 1) mod batchSize (cfg env) = 0"
    by (simp add: ev cb)
  from through ev cb iff show ?thesis
    by (intro conjI)
qed

theorem batch_break_overrides_delay_witness:
  "events (runBefore (deliveringWith (config\<lparr> batchSize := 2 \<rparr>))
             [sampleCustomer, sharedPhoneCustomer] (newWorld True) 2) =
     [Attempt 0, CheckNumberStatus ''201027056703@c.us'', SendText ''201027056703@c.us'' ''Hello'',
      Delay 15000,
      Attempt 0, CheckNumberStatus ''201027056703@c.us'', SendText ''201027056703@c.us'' ''Hello'',
      Delay 120000] \<and>
   currentBatch (state (tracker (runBefore (deliveringWith (config\<lparr> batchSize := 2 \<rparr>))
             [sampleCustomer, sharedPhoneCustomer] (newWorld True) 2))) = 1"
proof -
  let ?env = "deliveringWith (config\<lparr> batchSize := 2 \<rparr>)"
  let ?cs = "[sampleCustomer, sharedPhoneCustomer]"
  have b: "0 < batchSize (cfg ?env)"
    by (simp add: deliveringWith_cfg)
  have r: "reaches ?env ?cs (newWorld True) 1"
    by (simp add: reaches_def deliveringWith_go)
  have pre: "runBefore ?env ?cs (newWorld True) (Suc 0) =
      iteration ?env 0 sampleCustomer (newWorld True)"
    by (simp add: runBefore_def sendMessagesToCustomers_def deliveringWith_go)
  have two: "Suc 1 = 2"
    by simp
  show ?thesis
    using batch_break_overrides_delay [OF b r] unfolding two
    by (simp add: deliveringWith_cfg pre deliveringWith_send deliveringWith_iteration
        deliveringWith_computedDelay shouldTakeBatchBreak_def config_fields newWorld_fields
        formatWhatsAppNumber_def sample_phones)
qed

text \<open>
  Claim C6. Let the run over the recipients \<open>cs\<close> reach index \<open>i\<close>. The delay computed in
  the pass for the recipient at that index is the value that the pass pushes onto
  \<open>delays\<close>. It is \<open>initialWarmupDelay\<close> when \<open>i < 5\<close>, whatever the bounds of
  \<open>delayBetweenMessages\<close> are. For \<open>i \<ge> 5\<close> it lies between \<open>min\<close> and \<open>max\<close> of
  \<open>delayBetweenMessages\<close>, inclusive, when \<open>Math.random()\<close> returns doubles in \<open>[0, 1)\<close>
  and the bounds are integers with \<open>0 \<le> min \<le> max < 2^53\<close>, the range in which the
  sums of \<open>getRandomDelay\<close> are exact; the product is rounded as JavaScript rounds it.
\<close>

theorem warmup_then_bounded_delay:
  assumes "reaches env cs w i"
  defines "pre \<equiv> runBefore env cs w i"
  defines "post \<equiv> runBefore env cs w (Suc i)"
  shows "sendMessagesToCustomers env cs w = sendLoop env (Suc i) (drop (Suc i) cs) post \<and>
         delays (tracker post) = delays (tracker pre) @ [computedDelay env i (cs ! i) pre] \<and>
         (i < 5 \<longrightarrow> computedDelay env i (cs ! i) pre = initialWarmupDelay (cfg env)) \<and>
         (5 \<le> i \<and> (\<forall>n. unitDouble (random env n)) \<and>
            0 \<le> delayBetweenMessages_min (cfg env) \<and>
            delayBetweenMessages_min (cfg env) \<le> delayBetweenMessages_max (cfg env) \<and>
            delayBetweenMessages_max (cfg env) < 2 ^ 53 \<longrightarrow>
          delayBetweenMessages_min (cfg env) \<le> computedDelay env i (cs ! i) pre \<and>
          computedDelay env i (cs ! i) pre \<le> delayBetweenMessages_max (cfg env))"
proof (intro conjI impI)
  from assms(1) have "Suc i \<le> length cs"
    by (simp add: reaches_def)
  then show "sendMessagesToCustomers env cs w = sendLoop env (Suc i) (drop (Suc i) cs) post"
    unfolding post_def by (rule run_through)
next
  have "post = iteration env i (cs ! i) pre"
    unfolding post_def pre_def using assms(1) by (rule runBefore_Suc)
  then show "delays (tracker post) = delays (tracker pre) @ [computedDelay env i (cs ! i) pre]"
    by (simp add: iteration_delays)
next
  assume "i < 5"
  then show "computedDelay env i (cs ! i) pre = initialWarmupDelay (cfg env)"
    by (rule computedDelay_warmup)
next
  assume a: "5 \<le> i \<and> (\<forall>n. unitDouble (random env n)) \<and>
      0 \<le> delayBetweenMessages_min (cfg env) \<and>
      delayBetweenMessages_min (cfg env) \<le> delayBetweenMessages_max (cfg env) \<and>
      delayBetweenMessages_max (cfg env) < 2 ^ 53"
  let ?w = "snd (sendMessageWithRetry env (cs ! i) (i < 5) pre)"
  from a have r: "unitDouble (random env (draws ?w))"
    and mm: "delayBetweenMessages_min (cfg env) \<le> delayBetweenMessages_max (cfg env)"
    and i: "(i < 5) = False"
    by simp_all
  show "delayBetweenMessages_min (cfg env) \<le> computedDelay env i (cs ! i) pre"
    using getRandomDelay_range(1) [OF r mm] by (simp add: computedDelay_def i)
  show "computedDelay env i (cs ! i) pre \<le> delayBetweenMessages_max (cfg env)"
    using getRandomDelay_range(2) [OF r mm] by (simp add: computedDelay_def i)
qed

theorem warmup_then_bounded_delay_witness:
  "computedDelay deliveringEnv 2 (numberedCustomer 2)
     (runBefore deliveringEnv (map numberedCustomer [0 ..< 8]) (newWorld True) 2) = 15000 \<and>
   5000 \<le> computedDelay deliveringEnv 7 (numberedCustomer 7)
     (runBefore deliveringEnv (map numberedCustomer [0 ..< 8]) (newWorld True) 7) \<and>
   computedDelay deliveringEnv 7 (numberedCustomer 7)
     (runBefore deliveringEnv (map numberedCustomer [0 ..< 8]) (newWorld True) 7) \<le> 12000"
proof -
  let ?cs = "map numberedCustomer [0 ..< 8]"
  have r: "reaches deliveringEnv ?cs (newWorld True) 2" "reaches deliveringEnv ?cs (newWorld True) 7"
    by (simp_all add: reaches_def deliveringEnv_eq deliveringWith_go)
  have u: "\<forall>n. unitDouble (random deliveringEnv n)"
    by (simp add: deliveringEnv_def sample_unitDouble)
  have nth: "?cs ! k = numberedCustomer k" if "k < 8" for k
    using that by (simp del: upt_Suc)
  have n: "?cs ! 2 = numberedCustomer 2" "?cs ! 7 = numberedCustomer 7"
    by (rule nth, simp)+
  have c: "initialWarmupDelay (cfg deliveringEnv) = 15000"
    "delayBetweenMessages_min (cfg deliveringEnv) = 5000"
    "delayBetweenMessages_max (cfg deliveringEnv) = 12000"
    by (simp_all add: deliveringEnv_def sample_fields config_def)
  show ?thesis
    using warmup_then_bounded_delay [OF r(1)] warmup_then_bounded_delay [OF r(2)] u
    unfolding n c by simp
qed

lemma sendMessageWithRetry_transient:
  assumes "\<forall>k. transientAt env k (formatWhatsAppNumber (formattedPhone c))"
    and "\<forall>n. unitDouble (random env n)"
  shows "withoutSendText (events (snd (sendMessageWithRetry env c b w))) =
           withoutSendText (events w) @
             attemptSchedule (retryDelay (cfg env)) (formatWhatsAppNumber (formattedPhone c))
               0 (maxRetries (cfg env))"
    and "length (filter isCheckNumberStatus (events (snd (sendMessageWithRetry env c b w)))) =
           length (filter isCheckNumberStatus (events w)) + maxRetries (cfg env) + 1"
    and "length (filter isSendText (events (snd (sendMessageWithRetry env c b w)))) =
           length (filter isSendText (events w)) +
             length (filter (numberExistsAt env (formatWhatsAppNumber (formattedPhone c)))
                       [calls w ..< calls w + maxRetries (cfg env) + 1])"
    and "calls (snd (sendMessageWithRetry env c b w)) = calls w + maxRetries (cfg env) + 1"
    and "clock (snd (sendMessageWithRetry env c b w)) =
           clock w + int (maxRetries (cfg env)) * max 0 (retryDelay (cfg env))"
    and "customer (fst (sendMessageWithRetry env c b w)) = c"
    and "\<not> success (fst (sendMessageWithRetry env c b w))"
    and "retryCount (fst (sendMessageWithRetry env c b w)) = maxRetries (cfg env)"
  using retryLoop_transient [OF assms, of 0 "[]" w]
  by (simp_all add: sendMessageWithRetry_def del: upt_Suc)

text \<open>
  Claim C4. Let every attempt on a recipient's number end in an exception, and let
  \<open>Math.random()\<close> return doubles in \<open>[0, 1)\<close>, so that every attempt has a template and
  reaches the client. Then \<open>sendMessageWithRetry\<close> makes \<open>maxRetries + 1\<close> attempts, each
  with one call of \<open>checkNumberStatus\<close> for the recipient's number, and waits the fixed
  \<open>retryDelay\<close> between two attempts and not after the last: without the \<open>sendText\<close>
  calls its events are \<open>Attempt 0, CheckNumberStatus n, Delay retryDelay, ...,
  Attempt maxRetries, CheckNumberStatus n\<close>. It calls \<open>sendText\<close> once in every attempt
  whose check reports the number as registered. The result is a failure with
  \<open>retryCount = maxRetries\<close>;
  the loop records it, so \<open>failedSends\<close> goes up by one, \<open>successfulSends\<close> stays, and the
  recipient is among \<open>getFailedCustomers\<close>, the list written to \<open>failed-customers.csv\<close>.
\<close>

theorem transient_failures_exhaust_retries:
  fixes i :: nat and w :: World
  assumes "\<forall>k. transientAt env k (formatWhatsAppNumber (formattedPhone c))"
    and "\<forall>n. unitDouble (random env n)"
  defines "n \<equiv> formatWhatsAppNumber (formattedPhone c)"
  defines "sent \<equiv> sendMessageWithRetry env c (i < 5) w"
  shows "withoutSendText (events (snd sent)) =
           withoutSendText (events w) @
             attemptSchedule (retryDelay (cfg env)) n 0 (maxRetries (cfg env)) \<and>
         length (filter isCheckNumberStatus (events (snd sent))) =
           length (filter isCheckNumberStatus (events w)) + maxRetries (cfg env) + 1 \<and>
         length (filter isSendText (events (snd sent))) =
           length (filter isSendText (events w)) +
             length (filter (numberExistsAt env n) [calls w ..< calls w + maxRetries (cfg env) + 1]) \<and>
         calls (snd sent) = calls w + maxRetries (cfg env) + 1 \<and>
         customer (fst sent) = c \<and>
         \<not> success (fst sent) \<and>
         retryCount (fst sent) = maxRetries (cfg env) \<and>
         last (messageResults (tracker (iteration env i c w))) = fst sent \<and>
         failedSends (state (tracker (iteration env i c w))) = failedSends (state (tracker w)) + 1 \<and>
         successfulSends (state (tracker (iteration env i c w))) = successfulSends (state (tracker w)) \<and>
         c \<in> set (getFailedCustomers (tracker (iteration env i c w)))"
proof -
  note tr = sendMessageWithRetry_transient [OF assms(1,2), of "i < 5" w, folded n_def sent_def]
  have rec: "last (messageResults (tracker (iteration env i c w))) = fst sent"
    by (simp add: iteration_results sent_def)
  have fa: "failedSends (state (tracker (iteration env i c w))) = failedSends (state (tracker w)) + 1"
    "successfulSends (state (tracker (iteration env i c w))) = successfulSends (state (tracker w))"
    using tr(7) by (simp_all add: iteration_counts sent_def)
  have "fst sent \<in> set (messageResults (tracker (iteration env i c w)))"
    by (simp add: iteration_results sent_def)
  with tr(6,7) have mem: "c \<in> set (getFailedCustomers (tracker (iteration env i c w)))"
    by (force simp: getFailedCustomers_def)
  from tr(1-4,6-8) rec fa mem show ?thesis
    by (intro conjI)
qed

theorem transient_failures_exhaust_retries_witness:
  "withoutSendText (events (snd (sendMessageWithRetry failingEnv sampleCustomer True (newWorld True)))) =
     [Attempt 0, CheckNumberStatus ''201027056703@c.us'', Delay 30000,
      Attempt 1, CheckNumberStatus ''201027056703@c.us'', Delay 30000,
      Attempt 2, CheckNumberStatus ''201027056703@c.us'', Delay 30000,
      Attempt 3, CheckNumberStatus ''201027056703@c.us''] \<and>
   length (filter isCheckNumberStatus
     (events (snd (sendMessageWithRetry failingEnv sampleCustomer True (newWorld True))))) = 4 \<and>
   length (filter isSendText
     (events (snd (sendMessageWithRetry failingEnv sampleCustomer True (newWorld True))))) = 0 \<and>
   retryCount (fst (sendMessageWithRetry failingEnv sampleCustomer True (newWorld True))) = 3 \<and>
   failedSends (state (tracker (iteration failingEnv 0 sampleCustomer (newWorld True)))) = 1 \<and>
   sampleCustomer \<in> set (getFailedCustomers (tracker (iteration failingEnv 0 sampleCustomer (newWorld True))))"
proof -
  have h: "\<forall>k. transientAt failingEnv k (formatWhatsAppNumber (formattedPhone sampleCustomer))"
    by (simp add: transientAt_def failingEnv_def sampleEnv_def)
  have u: "\<forall>n. unitDouble (random failingEnv n)"
    by (simp add: failingEnv_def sample_unitDouble)
  have s: "attemptSchedule 30000 ''201027056703@c.us'' 0 3 =
      [Attempt 0, CheckNumberStatus ''201027056703@c.us'', Delay 30000,
       Attempt 1, CheckNumberStatus ''201027056703@c.us'', Delay 30000,
       Attempt 2, CheckNumberStatus ''201027056703@c.us'', Delay 30000,
       Attempt 3, CheckNumberStatus ''201027056703@c.us'']"
    by (simp add: attemptSchedule_def upt_rec)
  have c: "maxRetries (cfg failingEnv) = 3" "retryDelay (cfg failingEnv) = 30000"
    by (simp_all add: failingEnv_def sample_fields config_fields)
  have n: "formatWhatsAppNumber (formattedPhone sampleCustomer) = ''201027056703@c.us''"
    by (simp add: formatWhatsAppNumber_def sample_phones)
  have e: "numberExistsAt failingEnv m k = False" for m k
    by (simp add: numberExistsAt_def failingEnv_def sampleEnv_def)
  have five: "((0::nat) < 5) = True"
    by simp
  show ?thesis
    using transient_failures_exhaust_retries [OF h u, of 0 "newWorld True"]
    unfolding c n s five
    by (simp add: newWorld_fields e)
qed

lemma delivering_computedDelay:
  "computedDelay deliveringEnv i c w = (if i < 5 then 15000 else 8500)"
  by (simp add: deliveringEnv_eq deliveringWith_computedDelay config_fields double_eval)

lemma delivering_break:
  "shouldTakeBatchBreak config (int i + 1) \<longleftrightarrow> (int i + 1) mod 20 = 0"
  by (simp add: shouldTakeBatchBreak_def config_fields)

lemma delivering_iteration:
  "clock (iteration deliveringEnv i c w) = clock w + deliveringPacing i"
  "length (filter isSendText (events (iteration deliveringEnv i c w))) =
     length (filter isSendText (events w)) + 1"
  "successfulSends (state (tracker (iteration deliveringEnv i c w))) =
     successfulSends (state (tracker w)) + 1"
  "timestamp (last (messageResults (tracker (iteration deliveringEnv i c w)))) = clock w"
     apply (simp add: delivering_computedDelay [unfolded deliveringEnv_eq] deliveringEnv_eq
      deliveringWith_iteration delivering_break config_fields deliveringPacing_def)
    apply (simp add: deliveringEnv_eq deliveringWith_iteration)
   apply (simp add: deliveringEnv_eq deliveringWith_iteration)
  apply (simp add: deliveringEnv_eq deliveringWith_iteration)
  done

lemma delivering_not_shutting: "isShuttingDown deliveringEnv t = False"
  by (simp add: deliveringEnv_def sample_fields)

lemma delivering_sendLoop:
  "clock (sendLoop deliveringEnv i cs w) =
     clock w + sum_list (map deliveringPacing [i ..< i + length cs]) \<and>
   length (filter isSendText (events (sendLoop deliveringEnv i cs w))) =
     length (filter isSendText (events w)) + length cs \<and>
   successfulSends (state (tracker (sendLoop deliveringEnv i cs w))) =
     successfulSends (state (tracker w)) + int (length cs)"
proof (induction cs arbitrary: i w)
  case Nil
  show ?case by simp
next
  case (Cons c cs)
  have "[i ..< i + length (c # cs)] = i # [Suc i ..< Suc i + length cs]"
    by (subst upt_rec) simp
  with Cons [of "Suc i" "iteration deliveringEnv i c w"] show ?case
    by (simp add: delivering_not_shutting delivering_iteration)
qed

lemma pacing_100: "sum_list (map deliveringPacing [0 ..< 100]) = 1440000"
  by code_simp

text \<open>
  Claim C3, evaluated on the code. With the configuration of \<open>config.ts\<close>
  (\<open>rateLimiting.enabled\<close>, \<open>maxMessagesPerHour = 100\<close>) and 101 recipients whose messages
  are all delivered, the loop calls \<open>sendText\<close> 101 times; the 101st message is sent when
  the delays of the run add up to 1440000 ms, 24 minutes after the start, and it is
  counted as a success. No gate holds it back: \<open>sendMessagesToCustomers\<close> never reads
  \<open>config.rateLimiting\<close>.
\<close>

theorem hourly_limit_not_enforced:
  "rateLimiting_enabled (cfg deliveringEnv) \<and> maxMessagesPerHour (cfg deliveringEnv) = 100 \<and>
   length (filter isSendText (events hourlyRun)) = 101 \<and>
   successfulSends (state (tracker hourlyRun)) = 101 \<and>
   timestamp (last (messageResults (tracker hourlyRun))) = 1440000 \<and>
   (1440000 :: int) < 60 * 60 * 1000"
proof -
  let ?w = "sendLoop deliveringEnv 0 (map numberedCustomer [0 ..< 100]) (newWorld True)"
  have "(101::nat) = Suc 100"
    by simp
  then have "[0 ..< 101] = [0 ..< 100] @ [100]"
    by (simp only: upt_Suc_append [of 0 100] le0)
  then have split: "map numberedCustomer [0 ..< 101] = map numberedCustomer [0 ..< 100] @ [numberedCustomer 100]"
    by (simp only: map_append list.map)
  have run: "hourlyRun = iteration deliveringEnv 100 (numberedCustomer 100) ?w"
    unfolding hourlyRun_def sendMessagesToCustomers_def split sendLoop_append
    by (simp add: delivering_not_shutting)
  have c: "clock ?w = 1440000"
    using delivering_sendLoop [of 0 "map numberedCustomer [0 ..< 100]" "newWorld True"] pacing_100
    by (simp add: newWorld_fields)
  have n: "length (filter isSendText (events hourlyRun)) = 101"
    "successfulSends (state (tracker hourlyRun)) = 101"
    using delivering_sendLoop [of 0 "map numberedCustomer [0 ..< 101]" "newWorld True"]
    by (simp_all add: hourlyRun_def sendMessagesToCustomers_def newWorld_fields)
  have t: "timestamp (last (messageResults (tracker hourlyRun))) = 1440000"
    unfolding run by (simp add: delivering_iteration c)
  show ?thesis
    using n t by (simp add: deliveringEnv_def sample_fields config_def)
qed

text \<open>
  Claim C2, evaluated on the code. A run over one recipient whose number
  \<open>checkNumberStatus\<close> reports as not existing: the loop makes one attempt and no
  \<open>sendText\<close>, and waits the warmup delay, so the recipient is not retried. But the
  result has \<open>success = false\<close> and \<open>recordResult\<close> counts it as a failure:
  \<open>failedSends\<close> is 1, \<open>skippedCustomers\<close> is 0, and the recipient is in the list of
  failed customers.
\<close>

theorem unregistered_recorded_as_failed:
  "events (sendMessagesToCustomers unregisteredEnv [sampleCustomer] (newWorld True)) =
     [Attempt 0, CheckNumberStatus ''201027056703@c.us'', Delay 15000] \<and>
   failedSends (state (tracker
     (sendMessagesToCustomers unregisteredEnv [sampleCustomer] (newWorld True)))) = 1 \<and>
   skippedCustomers (state (tracker
     (sendMessagesToCustomers unregisteredEnv [sampleCustomer] (newWorld True)))) = 0 \<and>
   getFailedCustomers (tracker
     (sendMessagesToCustomers unregisteredEnv [sampleCustomer] (newWorld True))) =
     [sampleCustomer]"
proof -
  have send: "sendMessageWithRetry unregisteredEnv sampleCustomer True (newWorld True) =
      (\<lparr> customer = sampleCustomer, success = False, timestamp = 0,
         error = Some ''Phone number not registered on WhatsApp'', retryCount = 0 \<rparr>,
       (newWorld True)\<lparr> draws := 1, calls := 1,
         events := [Attempt 0, CheckNumberStatus ''201027056703@c.us''] \<rparr>)"
    by (simp add: sendMessageWithRetry_def retryLoop.simps [of _ _ 0] tryAttempt_def
        callClient_def getRandomTemplate_def unregisteredEnv_def sampleEnv_def double_eval
        formatWhatsAppNumber_def sample_phones newWorld_fields)
  have run: "sendMessagesToCustomers unregisteredEnv [sampleCustomer] (newWorld True) =
      iteration unregisteredEnv 0 sampleCustomer (newWorld True)"
    by (simp add: sendMessagesToCustomers_def unregisteredEnv_def sample_fields)
  have cd: "computedDelay unregisteredEnv 0 sampleCustomer (newWorld True) = 15000"
    by (simp add: computedDelay_warmup unregisteredEnv_def sample_fields config_fields)
  have nb: "\<not> shouldTakeBatchBreak (cfg unregisteredEnv) (int 0 + 1)"
    by (simp add: shouldTakeBatchBreak_def unregisteredEnv_def sample_fields config_fields)
  have ev: "events (sendMessagesToCustomers unregisteredEnv [sampleCustomer] (newWorld True)) =
      [Attempt 0, CheckNumberStatus ''201027056703@c.us'', Delay 15000]"
    unfolding run iteration_events using nb by (simp add: send cd)
  have fa: "failedSends (state (tracker
      (sendMessagesToCustomers unregisteredEnv [sampleCustomer] (newWorld True)))) = 1"
    unfolding run iteration_counts by (simp add: send newWorld_fields)
  have sk: "skippedCustomers (state (tracker
      (sendMessagesToCustomers unregisteredEnv [sampleCustomer] (newWorld True)))) = 0"
    unfolding run iteration_counts by (simp add: newWorld_fields)
  have gf: "getFailedCustomers (tracker
      (sendMessagesToCustomers unregisteredEnv [sampleCustomer] (newWorld True))) = [sampleCustomer]"
    unfolding run getFailedCustomers_def iteration_results by (simp add: send newWorld_fields)
  from ev fa sk gf show ?thesis
    by (intro conjI)
qed

section \<open>Properties of the phone number formatter\<close>

lemma cleanPhoneNumber_digits: "list_all isDigit (cleanPhoneNumber s)"
  by (simp add: cleanPhoneNumber_def list_all_iff)

lemma cleanPhoneNumber_id: "list_all isDigit s \<Longrightarrow> cleanPhoneNumber s = s"
  by (simp add: cleanPhoneNumber_def list_all_iff)

lemma formatPhoneNumber_digits:
  "list_all isDigit (countryCode c) \<Longrightarrow> list_all isDigit (formatPhoneNumber c s)"
  using cleanPhoneNumber_digits [of s]
  by (auto simp: formatPhoneNumber_def Let_def list_all_iff dest: in_set_dropD)

lemma formatPhoneNumber_prefix: "startsWith (formatPhoneNumber c s) (countryCode c)"
  by (simp add: formatPhoneNumber_def Let_def startsWith_def)

lemma formatPhoneNumber_fixed:
  assumes "list_all isDigit r" "startsWith r (countryCode c)" "\<not> startsWith r ''0''"
  shows "formatPhoneNumber c r = r"
  using assms by (simp add: formatPhoneNumber_def Let_def cleanPhoneNumber_id)

text \<open>
  Idempotence needs a country code of digits that does not start with \<open>0\<close>: then the
  result of a first call is clean, starts with the country code and not with \<open>0\<close>, so
  a second call takes the last branch.
\<close>

lemma formatPhoneNumber_idem_general:
  assumes d: "list_all isDigit (countryCode c)"
    and ne: "countryCode c \<noteq> []"
    and nz: "hd (countryCode c) \<noteq> CHR ''0''"
  shows "formatPhoneNumber c (formatPhoneNumber c s) = formatPhoneNumber c s"
proof (rule formatPhoneNumber_fixed)
  show "list_all isDigit (formatPhoneNumber c s)"
    using d by (rule formatPhoneNumber_digits)
  show "startsWith (formatPhoneNumber c s) (countryCode c)"
    by (rule formatPhoneNumber_prefix)
  show "\<not> startsWith (formatPhoneNumber c s) ''0''"
  proof
    assume "startsWith (formatPhoneNumber c s) ''0''"
    then have "hd (formatPhoneNumber c s) = CHR ''0''"
      by (auto simp: startsWith_def prefix_def)
    moreover have "hd (formatPhoneNumber c s) = hd (countryCode c)"
      using formatPhoneNumber_prefix [of c s] ne by (auto simp: startsWith_def prefix_def)
    ultimately show False
      using nz by simp
  qed
qed

lemma config_countryCode:
  "list_all isDigit (countryCode config)"
  "countryCode config \<noteq> []"
  "hd (countryCode config) \<noteq> CHR ''0''"
  by (simp_all add: config_def isDigit_def)

text \<open>
  Claim C10. For every input string \<open>s\<close>, \<open>formatPhoneNumber\<close> under the configuration of
  \<open>config.ts\<close> (country code \<open>20\<close>) returns a string of digits that starts with the
  country code, and applying it to its own result returns that result.
\<close>

theorem formatPhoneNumber_country_code_idempotent:
  "list_all isDigit (formatPhoneNumber config s) \<and>
   startsWith (formatPhoneNumber config s) (countryCode config) \<and>
   formatPhoneNumber config (formatPhoneNumber config s) = formatPhoneNumber config s"
  using formatPhoneNumber_digits [OF config_countryCode(1), of s]
    formatPhoneNumber_prefix [of config s]
    formatPhoneNumber_idem_general [OF config_countryCode, of s]
  by simp

section \<open>Properties of the template rotation\<close>

lemma roundRobin_Suc:
  "roundRobin ts start (Suc m) = ts ! (start mod length ts) # roundRobin ts (Suc start) m"
proof -
  have "[0 ..< Suc m] = 0 # map Suc [0 ..< m]"
    by (simp add: upt_conv_Cons map_Suc_upt del: upt_Suc)
  then show ?thesis
    by (simp add: roundRobin_def comp_def del: upt_Suc)
qed

lemma roundRobin_mod: "roundRobin ts (start mod length ts) m = roundRobin ts start m"
  by (simp add: roundRobin_def mod_add_left_eq)

lemma nextTemplates_roundRobin:
  assumes "selectedTemplates r \<noteq> []"
    and "templatePermutationIdx r < length (selectedTemplates r)"
  shows "nextTemplates builtin m r =
     Inr (roundRobin (selectedTemplates r) (templatePermutationIdx r) m,
          r\<lparr> templatePermutationIdx :=
               (templatePermutationIdx r + m) mod length (selectedTemplates r) \<rparr>)"
  using assms
proof (induction m arbitrary: r)
  case 0
  then show ?case by (simp add: roundRobin_def)
next
  case (Suc m)
  let ?ts = "selectedTemplates r" and ?i = "templatePermutationIdx r"
  let ?r' = "\<lparr> selectedTemplates = ?ts, templatePermutationIdx = (?i + 1) mod length ?ts \<rparr>"
  have step: "getNextTemplateInPermutation builtin r = Inr (?ts ! ?i, ?r')"
    using Suc.prems by (simp add: getNextTemplateInPermutation_def Let_def)
  have "selectedTemplates ?r' \<noteq> []" "templatePermutationIdx ?r' < length (selectedTemplates ?r')"
    using Suc.prems by simp_all
  from Suc.IH [OF this]
  have rest: "nextTemplates builtin m ?r' =
      Inr (roundRobin ?ts ((?i + 1) mod length ?ts) m,
           ?r'\<lparr> templatePermutationIdx := ((?i + 1) mod length ?ts + m) mod length ?ts \<rparr>)"
    by simp
  have idx: "((?i + 1) mod length ?ts + m) mod length ?ts = (?i + Suc m) mod length ?ts"
    by (simp add: mod_add_left_eq)
  have rr: "roundRobin ?ts ?i (Suc m) = ?ts ! ?i # roundRobin ?ts ((?i + 1) mod length ?ts) m"
    using Suc.prems(2) by (simp add: roundRobin_Suc roundRobin_mod)
  show ?case
    using step rest idx rr by (cases r) simp
qed

lemma roundRobin_window:
  assumes "ts \<noteq> []"
  shows "take (length ts) (drop a (roundRobin ts start (a + length ts))) =
           rotate ((start + a) mod length ts) ts"
proof (rule nth_equalityI)
  show "length (take (length ts) (drop a (roundRobin ts start (a + length ts)))) =
        length (rotate ((start + a) mod length ts) ts)"
    by (simp add: roundRobin_def)
next
  fix i
  assume "i < length (take (length ts) (drop a (roundRobin ts start (a + length ts))))"
  then have i: "i < length ts"
    by (simp add: roundRobin_def)
  have "((start + a) mod length ts + i) mod length ts = (start + (a + i)) mod length ts"
    by (simp add: mod_add_left_eq add.assoc)
  with i show "take (length ts) (drop a (roundRobin ts start (a + length ts))) ! i =
        rotate ((start + a) mod length ts) ts ! i"
    by (simp add: roundRobin_def nth_rotate)
qed

lemma roundRobin_period:
  "k + length ts < m \<Longrightarrow> roundRobin ts start m ! (k + length ts) = roundRobin ts start m ! k"
  by (simp add: roundRobin_def add.assoc [symmetric])

lemma residues_window:
  assumes "0 < n"
  shows "map (\<lambda>k. (start + k) mod n) [a ..< a + n] = rotate ((start + a) mod n) [0 ..< n]"
proof (rule nth_equalityI)
  show "length (map (\<lambda>k. (start + k) mod n) [a ..< a + n]) =
        length (rotate ((start + a) mod n) [0 ..< n])"
    by simp
next
  fix i
  assume "i < length (map (\<lambda>k. (start + k) mod n) [a ..< a + n])"
  then have i: "i < n"
    by simp
  have "((start + a) mod n + i) mod n = (start + (a + i)) mod n"
    by (simp add: mod_add_left_eq add.assoc)
  with i assms show "map (\<lambda>k. (start + k) mod n) [a ..< a + n] ! i =
        rotate ((start + a) mod n) [0 ..< n] ! i"
    by (simp add: nth_rotate)
qed

lemma filter_eq_count: "length (filter (\<lambda>k. f k = j) ks) = count_list (map f ks) j"
  by (induction ks) simp_all

lemma count_list_distinct: "distinct xs \<Longrightarrow> x \<in> set xs \<Longrightarrow> count_list xs x = 1"
  by (induction xs) auto

lemma uses_window:
  assumes "0 < n" "j < n"
  shows "length (filter (\<lambda>k. (start + k) mod n = j) [a ..< a + n]) = 1"
proof -
  have "distinct (rotate ((start + a) mod n) [0 ..< n])"
    by simp
  moreover have "j \<in> set (rotate ((start + a) mod n) [0 ..< n])"
    using assms by simp
  ultimately have "count_list (rotate ((start + a) mod n) [0 ..< n]) j = 1"
    by (rule count_list_distinct)
  then show ?thesis
    by (simp add: filter_eq_count residues_window [OF assms(1)])
qed

lemma uses_add:
  assumes "0 < n" "j < n"
  shows "uses n start j (m + n) = uses n start j m + 1"
proof -
  have "[0 ..< m + n] = [0 ..< m] @ [m ..< m + n]"
    by (rule upt_add_eq_append) simp
  then show ?thesis
    by (simp add: uses_def uses_window [OF assms])
qed

lemma uses_small:
  assumes "0 < n" "j < n" "m \<le> n"
  shows "uses n start j m \<le> 1"
proof -
  have "[0 ..< n] = [0 ..< m] @ [m ..< n]"
    using assms(3) upt_add_eq_append [of 0 m "n - m"] by simp
  then have "uses n start j m \<le> length (filter (\<lambda>k. (start + k) mod n = j) [0 ..< n])"
    by (simp add: uses_def)
  also have "\<dots> = 1"
    using uses_window [OF assms(1,2), of start 0] by simp
  finally show ?thesis .
qed

lemma uses_bounds:
  assumes "0 < n" "j < n"
  shows "m div n \<le> uses n start j m \<and> uses n start j m \<le> (m + n - 1) div n"
proof (induction m rule: less_induct)
  case (less m)
  show ?case
  proof (cases "m < n")
    case True
    have le1: "uses n start j m \<le> 1"
      using uses_small [OF assms] True by simp
    show ?thesis
    proof (cases "m = 0")
      case True
      then show ?thesis by (simp add: uses_def)
    next
      case False
      with \<open>m < n\<close> have "(m + n - 1) div n = 1"
        by (simp add: div_eq_dividend_iff div_nat_eqI)
      with True le1 show ?thesis by simp
    qed
  next
    case False
    define m' where "m' = m - n"
    with False have m: "m = m' + n"
      by simp
    with assms have "m' < m" by simp
    from less [OF this] have ih: "m' div n \<le> uses n start j m'"
      "uses n start j m' \<le> (m' + n - 1) div n"
      by simp_all
    have d1: "m div n = m' div n + 1"
      using assms(1) by (simp add: m)
    have e: "m + n - 1 = (m' + n - 1) + n"
      using assms(1) by (simp add: m)
    have "((m' + n - 1) + n) div n = (m' + n - 1) div n + 1"
      using assms(1) by (subst div_add_self2) simp_all
    then have d2: "(m + n - 1) div n = (m' + n - 1) div n + 1"
      by (simp only: e)
    have u: "uses n start j m = uses n start j m' + 1"
      unfolding m by (rule uses_add [OF assms])
    show ?thesis
      using ih unfolding d1 d2 u by simp
  qed
qed

lemma uses_floor_or_ceiling:
  assumes "0 < n" "j < n"
  shows "uses n start j m = m div n \<or> uses n start j m = (m + n - 1) div n"
proof -
  define f c u where "f = m div n" and "c = (m + n - 1) div n" and "u = uses n start j m"
  have "(m + n - 1) div n \<le> (m + n) div n"
    by (rule div_le_mono) simp
  also have "\<dots> = m div n + 1"
    using assms(1) by simp
  finally have "c \<le> f + 1"
    by (simp only: f_def c_def)
  moreover have "f \<le> u" "u \<le> c"
    using uses_bounds [OF assms, of m start] by (simp_all only: f_def c_def u_def)
  ultimately have "u = f \<or> u = c"
    by arith
  then show ?thesis
    by (simp only: f_def c_def u_def)
qed

lemma roundRobin_count:
  assumes "distinct ts" "j < length ts"
  shows "count_list (roundRobin ts start m) (ts ! j) = uses (length ts) start j m"
proof -
  have pos: "0 < length ts"
    using assms(2) by (cases ts) simp_all
  have "(ts ! ((start + k) mod length ts) = ts ! j) = ((start + k) mod length ts = j)" for k
    using assms pos by (simp add: nth_eq_iff_index_eq)
  then have "filter (\<lambda>k. ts ! ((start + k) mod length ts) = ts ! j) [0 ..< m] =
             filter (\<lambda>k. (start + k) mod length ts = j) [0 ..< m]"
    by simp
  moreover have "count_list (roundRobin ts start m) (ts ! j) =
      length (filter (\<lambda>k. ts ! ((start + k) mod length ts) = ts ! j) [0 ..< m])"
    unfolding roundRobin_def by (rule filter_eq_count [symmetric])
  ultimately show ?thesis
    by (simp only: uses_def)
qed

lemma mset_rotate_eq: "mset (rotate k xs) = mset xs"
proof (induction k)
  case 0
  show ?case by simp
next
  case (Suc k)
  have "mset (rotate1 ys) = mset ys" for ys :: "'a list"
    by (cases ys) simp_all
  with Suc show ?case by simp
qed

text \<open>
  Claim C8. With \<open>N\<close> selected templates and the index inside the list, \<open>m\<close> calls of
  \<open>getNextTemplateInPermutation\<close> never panic and return the round-robin sequence from the
  current index. Every run of \<open>N\<close> consecutive calls is the declared list rotated to the
  index the run starts at: each template once, in the order of the list taken cyclically,
  and the list itself when the run starts at index 0. The sequence has period \<open>N\<close>, and
  among \<open>m\<close> calls the template at each index is used \<open>m div N\<close> or
  \<open>(m + N - 1) div N\<close> times (the floor and the ceiling of \<open>m / N\<close>); for distinct
  templates that is the number of times the template appears.
\<close>

theorem round_robin_rotation:
  fixes r :: Rotator
  defines "ts \<equiv> selectedTemplates r" and "start \<equiv> templatePermutationIdx r"
  assumes "selectedTemplates r \<noteq> []"
    and "templatePermutationIdx r < length (selectedTemplates r)"
  shows "nextTemplates builtin m r =
           Inr (roundRobin ts start m, r\<lparr> templatePermutationIdx := (start + m) mod length ts \<rparr>) \<and>
         (\<forall>a. take (length ts) (drop a (roundRobin ts start (a + length ts))) =
               rotate ((start + a) mod length ts) ts) \<and>
         (\<forall>a. mset (take (length ts) (drop a (roundRobin ts start (a + length ts)))) = mset ts) \<and>
         (\<forall>a. (start + a) mod length ts = 0 \<longrightarrow>
               take (length ts) (drop a (roundRobin ts start (a + length ts))) = ts) \<and>
         (\<forall>k. k + length ts < m \<longrightarrow>
               roundRobin ts start m ! (k + length ts) = roundRobin ts start m ! k) \<and>
         (\<forall>j < length ts. uses (length ts) start j m = m div length ts \<or>
                           uses (length ts) start j m = (m + length ts - 1) div length ts) \<and>
         (distinct ts \<longrightarrow>
            (\<forall>j < length ts. count_list (roundRobin ts start m) (ts ! j) = uses (length ts) start j m))"
proof -
  have ne: "ts \<noteq> []" and pos: "0 < length ts"
    using assms(3) by (simp_all add: ts_def)
  have run: "nextTemplates builtin m r =
      Inr (roundRobin ts start m, r\<lparr> templatePermutationIdx := (start + m) mod length ts \<rparr>)"
    unfolding ts_def start_def by (rule nextTemplates_roundRobin [OF assms(3,4)])
  have win: "take (length ts) (drop a (roundRobin ts start (a + length ts))) =
      rotate ((start + a) mod length ts) ts" for a
    by (rule roundRobin_window [OF ne])
  have once: "mset (take (length ts) (drop a (roundRobin ts start (a + length ts)))) = mset ts" for a
    by (simp only: win mset_rotate_eq)
  have aligned: "take (length ts) (drop a (roundRobin ts start (a + length ts))) = ts"
    if "(start + a) mod length ts = 0" for a
    using that by (simp add: win)
  have period: "roundRobin ts start m ! (k + length ts) = roundRobin ts start m ! k"
    if "k + length ts < m" for k
    using that by (rule roundRobin_period)
  have cnt: "uses (length ts) start j m = m div length ts \<or>
      uses (length ts) start j m = (m + length ts - 1) div length ts" if "j < length ts" for j
    using pos that by (rule uses_floor_or_ceiling)
  have dis: "count_list (roundRobin ts start m) (ts ! j) = uses (length ts) start j m"
    if "distinct ts" "j < length ts" for j
    using that by (rule roundRobin_count)
  from run win once aligned period cnt dis show ?thesis
    by blast
qed

theorem round_robin_rotation_witness:
  "nextTemplates [] 7 threeTemplates =
     Inr ([''A'', ''B'', ''C'', ''A'', ''B'', ''C'', ''A''],
          \<lparr> selectedTemplates = [''A'', ''B'', ''C''], templatePermutationIdx = 1 \<rparr>) \<and>
   take 3 (drop 2 (roundRobin [''A'', ''B'', ''C''] 0 5)) = [''C'', ''A'', ''B''] \<and>
   count_list (roundRobin [''A'', ''B'', ''C''] 0 7) ''A'' = 3 \<and>
   count_list (roundRobin [''A'', ''B'', ''C''] 0 7) ''B'' = 2"
proof -
  have h: "selectedTemplates threeTemplates \<noteq> []"
    "templatePermutationIdx threeTemplates < length (selectedTemplates threeTemplates)"
    by (simp_all add: threeTemplates_def)
  have rr: "roundRobin [''A'', ''B'', ''C''] 0 7 = [''A'', ''B'', ''C'', ''A'', ''B'', ''C'', ''A'']"
    "roundRobin [''A'', ''B'', ''C''] 0 5 = [''A'', ''B'', ''C'', ''A'', ''B'']"
    by (simp_all add: roundRobin_def upt_rec)
  show ?thesis
    using round_robin_rotation [OF h, of "[]" 7]
    by (simp add: threeTemplates_def rr)
qed

section \<open>Properties of duplicate handling\<close>

lemma parseRow_inv:
  assumes "snd acc = Code ` set (fst acc)" "distinct (map Code (fst acc))"
  shows "snd (parseRow headers acc vals) = Code ` set (fst (parseRow headers acc vals)) \<and>
         distinct (map Code (fst (parseRow headers acc vals)))"
  using assms by (auto simp: parseRow_def Let_def)

lemma parseRows_inv:
  "snd (foldl (parseRow headers) ([], {}) rows) =
     Code ` set (fst (foldl (parseRow headers) ([], {}) rows)) \<and>
   distinct (map Code (fst (foldl (parseRow headers) ([], {}) rows)))"
proof (induction rows rule: rev_induct)
  case Nil
  show ?case by simp
next
  case (snoc vals rows)
  then show ?case
    using parseRow_inv [of "foldl (parseRow headers) ([], {}) rows" headers vals] by simp
qed



lemma parseRows_new:
  assumes "length headers \<le> length vals"
    and "Code (rowCustomer headers vals) \<notin> Code ` set (parseRows headers rows)"
  shows "parseRows headers (rows @ [vals]) = parseRows headers rows @ [rowCustomer headers vals]"
  using assms parseRows_inv [of headers rows]
  by (simp add: parseRows_def parseRow_def Let_def)










section \<open>Properties of the checkpoint\<close>

lemma saveProgress_calls:
  "fsCalls (fileSystem (saveProgress t)) =
     fsCalls (fileSystem t) @
       (if existsSync (dirname (progressFile t)) (fileSystem t)
        then [WriteFileSync (progressFile t) (state t)]
        else if writable (fileSystem t)
             then [MkdirSync (dirname (progressFile t)), WriteFileSync (progressFile t) (state t)]
             else [MkdirSync (dirname (progressFile t))])"
  by (simp add: saveProgress_def mkdirSync_def writeFileSync_def Let_def)

lemma saveCalls_eq:
  "saveCalls t =
     (if existsSync (dirname (progressFile t)) (fileSystem t)
      then [WriteFileSync (progressFile t) (state t)]
      else if writable (fileSystem t)
           then [MkdirSync (dirname (progressFile t)), WriteFileSync (progressFile t) (state t)]
           else [MkdirSync (dirname (progressFile t))])"
  unfolding saveCalls_def saveProgress_calls by simp

lemma saveProgress_written:
  assumes "writable (fileSystem t)"
    and "dirname (progressFile t) \<in> directories (fileSystem t) \<or>
         \<not> existsSync (dirname (progressFile t)) (fileSystem t)"
  shows "loadProgress (saveProgress t) = Some (state t)"
  using assms
  by (auto simp: loadProgress_def saveProgress_def existsSync_def mkdirSync_def writeFileSync_def
      Let_def split: option.splits)

text \<open>
  Claim C9, as amended. A save writes the full snapshot of the state to the progress
  file itself: after \<open>mkdirSync\<close> for the directory of the file when it is missing, the
  only call of \<open>saveProgress\<close> is one \<open>writeFileSync\<close> of \<open>state\<close> to \<open>progressFile\<close>.
  There is no temporary file and no rename, so the save is not the atomic replacement
  that the specification names. When the file system accepts the calls, the file then
  holds the state, the snapshot before it is gone and \<open>loadProgress\<close> returns the state;
  when a call throws, the error is caught and the tracker goes on with its state,
  results and delays as they were.
\<close>

theorem checkpoint_written_in_place:
  "saveCalls t =
     (if existsSync (dirname (progressFile t)) (fileSystem t)
      then [WriteFileSync (progressFile t) (state t)]
      else if writable (fileSystem t)
           then [MkdirSync (dirname (progressFile t)), WriteFileSync (progressFile t) (state t)]
           else [MkdirSync (dirname (progressFile t))]) \<and>
   fsCalls (fileSystem (saveProgress t)) = fsCalls (fileSystem t) @ saveCalls t \<and>
   filter isRenameSync (saveCalls t) = [] \<and>
   \<not> atomicSave (progressFile t) (state t) (saveCalls t) \<and>
   state (saveProgress t) = state t \<and>
   messageResults (saveProgress t) = messageResults t \<and>
   delays (saveProgress t) = delays t \<and>
   (writable (fileSystem t) \<and>
      (dirname (progressFile t) \<in> directories (fileSystem t) \<or>
       \<not> existsSync (dirname (progressFile t)) (fileSystem t)) \<longrightarrow>
    loadProgress (saveProgress t) = Some (state t))"
proof (intro conjI impI)
  show "saveCalls t =
     (if existsSync (dirname (progressFile t)) (fileSystem t)
      then [WriteFileSync (progressFile t) (state t)]
      else if writable (fileSystem t)
           then [MkdirSync (dirname (progressFile t)), WriteFileSync (progressFile t) (state t)]
           else [MkdirSync (dirname (progressFile t))])"
    by (rule saveCalls_eq)
  show "fsCalls (fileSystem (saveProgress t)) = fsCalls (fileSystem t) @ saveCalls t"
    by (simp only: saveProgress_calls saveCalls_eq)
  show "filter isRenameSync (saveCalls t) = []"
    by (simp add: saveCalls_eq)
  show "\<not> atomicSave (progressFile t) (state t) (saveCalls t)"
    by (simp add: saveCalls_eq atomicSave_def)
  show "state (saveProgress t) = state t"
    "messageResults (saveProgress t) = messageResults t"
    "delays (saveProgress t) = delays t"
    by (simp_all add: saveProgress_frame)
next
  assume "writable (fileSystem t) \<and>
      (dirname (progressFile t) \<in> directories (fileSystem t) \<or>
       \<not> existsSync (dirname (progressFile t)) (fileSystem t))"
  then show "loadProgress (saveProgress t) = Some (state t)"
    by (simp add: saveProgress_written)
qed

lemma freshTracker_fields:
  "progressFile freshTracker = ''./data/progress.json''"
  "dirname ''./data/progress.json'' = ''./data''"
  "writable (fileSystem freshTracker)"
  "\<not> existsSync ''./data'' (fileSystem freshTracker)"
  "fsCalls (fileSystem freshTracker) = []"
  by (simp_all add: freshTracker_def newProgressTracker_def newFileSystem_def dirname_def
      existsSync_def)

theorem checkpoint_written_in_place_witness:
  "loadProgress (saveProgress freshTracker) = Some (state freshTracker) \<and>
   fsCalls (fileSystem (saveProgress freshTracker)) =
     [MkdirSync ''./data'', WriteFileSync ''./data/progress.json'' (state freshTracker)]"
  using checkpoint_written_in_place [of freshTracker]
  by (simp add: freshTracker_fields)

text \<open>
  Claim C9 as stated fails. The first save of a run, in a working directory without a
  \<open>data\<close> directory, creates the directory and writes the snapshot to
  \<open>./data/progress.json\<close> in place; the next save is that write alone. Neither writes
  a temporary file or renames one, so neither is atomic.
\<close>

theorem checkpoint_save_not_atomic:
  "saveCalls freshTracker =
     [MkdirSync ''./data'', WriteFileSync ''./data/progress.json'' (state freshTracker)] \<and>
   saveCalls (saveProgress freshTracker) =
     [WriteFileSync ''./data/progress.json'' (state freshTracker)] \<and>
   \<not> atomicSave ''./data/progress.json'' (state freshTracker) (saveCalls freshTracker) \<and>
   \<not> atomicSave ''./data/progress.json'' (state freshTracker)
        (saveCalls (saveProgress freshTracker)) \<and>
   atomicSave ''./data/progress.json'' (state freshTracker)
     [WriteFileSync ''./data/progress.json.tmp'' (state freshTracker),
      RenameSync ''./data/progress.json.tmp'' ''./data/progress.json'']"
proof -
  have first: "saveCalls freshTracker =
      [MkdirSync ''./data'', WriteFileSync ''./data/progress.json'' (state freshTracker)]"
    by (simp add: saveCalls_eq freshTracker_fields)
  have ex: "existsSync ''./data'' (fileSystem (saveProgress freshTracker))"
    by (simp add: saveProgress_def freshTracker_def newProgressTracker_def newFileSystem_def
        dirname_def mkdirSync_def writeFileSync_def existsSync_def Let_def)
  have "saveCalls (saveProgress freshTracker) =
      [WriteFileSync (progressFile freshTracker) (state freshTracker)]"
    using ex by (simp add: saveCalls_eq [of "saveProgress freshTracker"] saveProgress_frame
        freshTracker_fields)
  then have second: "saveCalls (saveProgress freshTracker) =
      [WriteFileSync ''./data/progress.json'' (state freshTracker)]"
    by (simp add: freshTracker_fields)
  have no1: "\<not> atomicSave ''./data/progress.json'' (state freshTracker) (saveCalls freshTracker)"
    unfolding first by (simp add: atomicSave_def)
  have no2: "\<not> atomicSave ''./data/progress.json'' (state freshTracker)
      (saveCalls (saveProgress freshTracker))"
    unfolding second by (simp add: atomicSave_def)
  have yes: "atomicSave ''./data/progress.json'' (state freshTracker)
      [WriteFileSync ''./data/progress.json.tmp'' (state freshTracker),
       RenameSync ''./data/progress.json.tmp'' ''./data/progress.json'']"
    by (simp add: atomicSave_def)
  show ?thesis
    by (intro conjI first second no1 no2 yes)
qed

end
